theory Spec2Isabelle
  imports Complex_Main "HOL-Library.Sublist"
begin

section \<open>Strings and color normalization (config.ts)\<close>

text \<open>
  A JavaScript string is modelled as a \<^typ>\<open>string\<close>, one \<^typ>\<open>char\<close> for each UTF-16 code
  unit; the model covers the code units below 256. Among those, \<open>String.prototype.trim\<close>
  removes tab, line feed, vertical tab, form feed, carriage return, space and the
  no-break space.
\<close>

definition isWhiteSpace :: "char \<Rightarrow> bool" where
  "isWhiteSpace c = (c \<in> set [CHR 0x09, CHR 0x0A, CHR 0x0B, CHR 0x0C, CHR 0x0D, CHR 0x20, CHR 0xA0])"

definition trim :: "string \<Rightarrow> string" where
  "trim s = rev (dropWhile isWhiteSpace (rev (dropWhile isWhiteSpace s)))"

text \<open>The character class \<open>[0-9a-fA-F]\<close>.\<close>

definition isHexDigit :: "char \<Rightarrow> bool" where
  "isHexDigit c = (c \<in> set ''0123456789abcdefABCDEF'')"

text \<open>
  \<open>String.prototype.toUpperCase\<close> on a string of ASCII characters: the letters \<open>a\<close> to \<open>z\<close>
  change, nothing else does. \<open>normalizeHexColor\<close> applies it to a string that has passed
  the test \<open>/^#[0-9a-fA-F]{6}$/\<close>, which holds ASCII characters only.
\<close>

definition toUpperChar :: "char \<Rightarrow> char" where
  "toUpperChar c =
     (case map_of (zip ''abcdefghijklmnopqrstuvwxyz'' ''ABCDEFGHIJKLMNOPQRSTUVWXYZ'') c of
        Some u \<Rightarrow> u
      | None \<Rightarrow> c)"

definition toUpperCase_ascii :: "string \<Rightarrow> string" where
  "toUpperCase_ascii s = map toUpperChar s"

definition startsWith :: "string \<Rightarrow> string \<Rightarrow> bool" where
  "startsWith s p = (take (length p) s = p)"

text \<open>\<open>/^#[0-9a-fA-F]{6}$/.test(s)\<close>: without the \<open>m\<close> flag, \<open>$\<close> is the end of the input.\<close>

definition test_hex6 :: "string \<Rightarrow> bool" where
  "test_hex6 s = (case s of
      [] \<Rightarrow> False
    | c # ds \<Rightarrow> c = CHR ''#'' \<and> length ds = 6 \<and> list_all isHexDigit ds)"

text \<open>
  Modelled from the spec: \<open>constants.ts\<close>, which declares the fixed default color, is not
  among the sources; the value is the one \<open>config.test.ts\<close> expects of a configuration
  that gives no color.
\<close>

definition DEFAULT_CLAWD_BROWSER_COLOR :: string where
  "DEFAULT_CLAWD_BROWSER_COLOR = ''#FF4500''"

text \<open>\<open>normalizeHexColor(raw: string | undefined)\<close>; \<open>None\<close> is \<open>undefined\<close>.\<close>

definition normalizeHexColor :: "string option \<Rightarrow> string" where
  "normalizeHexColor raw =
     (let val = trim (case raw of None \<Rightarrow> [] | Some s \<Rightarrow> s) in
      if val = [] then DEFAULT_CLAWD_BROWSER_COLOR
      else
        let normalized = (if startsWith val ''#'' then val else ''#'' @ val) in
        if \<not> test_hex6 normalized then DEFAULT_CLAWD_BROWSER_COLOR
        else toUpperCase_ascii normalized)"

text \<open>
  What the specification calls a valid color: six hexadecimal digits, with or without a
  leading \<open>#\<close>. \<open>strip_hash\<close> removes one leading \<open>#\<close>.
\<close>

definition strip_hash :: "string \<Rightarrow> string" where
  "strip_hash s = (case s of [] \<Rightarrow> [] | c # ds \<Rightarrow> if c = CHR ''#'' then ds else s)"

definition valid_hex6 :: "string \<Rightarrow> bool" where
  "valid_hex6 s = (length (strip_hash s) = 6 \<and> list_all isHexDigit (strip_hash s))"

text \<open>The \<open>value\<close> of \<open>normalizeHexColor\<close>: \<open>(raw ?? "").trim()\<close>.\<close>

definition trimmed_input :: "string option \<Rightarrow> string" where
  "trimmed_input raw = trim (case raw of None \<Rightarrow> [] | Some s \<Rightarrow> s)"

definition isUpperHex :: "char \<Rightarrow> bool" where
  "isUpperHex c = (c \<in> set ''0123456789ABCDEF'')"


section \<open>JSON values and the deep-set utility (chrome.ts)\<close>

text \<open>
  The values \<open>JSON.parse\<close> produces. A number is a \<^typ>\<open>real\<close> (the finite doubles are
  among them; the infinities and the rounding of doubles are outside the model). An object
  is an association list in insertion order; a lookup takes the first binding of a key.
\<close>

datatype json =
    JNull
  | JBool bool
  | JNum real
  | JStr string
  | JArr "json list"
  | JObj "(string \<times> json) list"

type_synonym record_js = "(string \<times> json) list"

definition obj_get :: "record_js \<Rightarrow> string \<Rightarrow> json option" where
  "obj_get node key = map_of node key"

text \<open>\<open>node[key] = v\<close>: an existing key keeps its place, a new key goes last.\<close>

fun obj_set :: "record_js \<Rightarrow> string \<Rightarrow> json \<Rightarrow> record_js" where
  "obj_set [] key v = [(key, v)]"
| "obj_set ((k, w) # rest) key v =
     (if k = key then (key, v) # rest else (k, w) # obj_set rest key v)"

text \<open>
  The test of \<open>setDeep\<close> on \<open>next = node[key]\<close>: when \<open>next\<close> is \<open>undefined\<close>, not of type
  \<open>object\<close>, \<open>null\<close> or an array, \<open>node[key]\<close> becomes \<open>{}\<close>; the walk goes on in \<open>node[key]\<close>.
\<close>

definition next_node :: "json option \<Rightarrow> record_js" where
  "next_node nxt = (case nxt of Some (JObj child) \<Rightarrow> child | _ \<Rightarrow> [])"

text \<open>
  \<open>node[key]\<close> looks at the own properties of \<open>node\<close> and then at \<open>Object.prototype\<close>,
  the prototype of every object that \<open>JSON.parse\<close> or \<open>{}\<close> makes. What \<open>Object.prototype\<close>
  holds under a name are functions, which the test of \<open>setDeep\<close> treats like a missing key
  and an assignment shadows with an own property; the one exception is \<open>__proto__\<close>, a
  getter and setter. When \<open>node\<close> has no own property \<open>__proto__\<close>, \<open>node["__proto__"]\<close> is
  \<open>Object.prototype\<close> itself, and \<open>node["__proto__"] = v\<close> sets the prototype of \<open>node\<close> (or
  does nothing) and makes no own property.
\<close>

definition reads_prototype :: "record_js \<Rightarrow> string \<Rightarrow> bool" where
  "reads_prototype node key = (key = ''__proto__'' \<and> obj_get node key = None)"

text \<open>
  What a call of \<open>setDeep\<close> leaves: the own properties of \<open>obj\<close> after it, and whether the
  value was bound in the tree (\<open>Bound\<close>) or the walk left the tree at a key \<open>__proto__\<close>
  (\<open>Outside\<close>: the source goes on in \<open>Object.prototype\<close>, where it assigns or raises, or it
  sets a prototype; what it does there is not modelled).
\<close>

datatype walk = Bound record_js | Outside record_js

definition own :: "walk \<Rightarrow> record_js" where
  "own w = (case w of Bound node \<Rightarrow> node | Outside node \<Rightarrow> node)"

text \<open>The last step, \<open>node[key] = value\<close>.\<close>

definition assign_key :: "record_js \<Rightarrow> string \<Rightarrow> json \<Rightarrow> walk" where
  "assign_key node key v =
     (if reads_prototype node key then Outside node else Bound (obj_set node key v))"

text \<open>
  \<open>setDeep(obj, keys, value)\<close>. The source walks down \<open>keys.slice(0, -1)\<close> and assigns in
  place; on a tree (no object reachable twice, as \<open>JSON.parse\<close> builds it) that is this
  function, which returns the updated \<open>obj\<close>. With no key at all the source assigns at
  the key \<open>""\<close>.
\<close>

fun setDeep :: "record_js \<Rightarrow> string list \<Rightarrow> json \<Rightarrow> walk" where
  "setDeep node [] v = assign_key node [] v"
| "setDeep node [key] v = assign_key node key v"
| "setDeep node (key # key' # keys) v =
     (if reads_prototype node key then Outside node
      else case setDeep (next_node (obj_get node key)) (key' # keys) v of
             Bound child \<Rightarrow> Bound (obj_set node key (JObj child))
           | Outside child \<Rightarrow> Outside (obj_set node key (JObj child)))"

text \<open>
  Reading the own properties of a tree along a key path: \<open>obj[k1][k2]...\<close>, nothing below
  a value that is no object.
\<close>

fun getDeep :: "json \<Rightarrow> string list \<Rightarrow> json option" where
  "getDeep j [] = Some j"
| "getDeep (JObj node) (key # keys) =
     (case obj_get node key of None \<Rightarrow> None | Some j \<Rightarrow> getDeep j keys)"
| "getDeep _ (key # keys) = None"

section \<open>Node built-ins, the file system\<close>

text \<open>An \<open>Error\<close> object, by the value its constructor was given (its message is that value as a string).\<close>

datatype error = Error json

text \<open>
  The built-ins of Node and JavaScript that the code calls and this development does not
  define are parameters: \<open>path.join\<close>, \<open>path.dirname\<close>, \<open>os.homedir()\<close>, the conversion
  \<open>Number(v)\<close> of a string, an array or an object (\<open>None\<close> is \<open>NaN\<close>),
  \<open>Buffer.from(v, "base64")\<close>, whose bytes are a \<^typ>\<open>string\<close>, and the upper-case form
  of a code unit from 128 on (one that has none is its own; that of \<open>0xDF\<close> is \<open>SS\<close>).
\<close>

record node =
  path_join :: "string list \<Rightarrow> string"
  path_dirname :: "string \<Rightarrow> string"
  os_homedir :: string
  Number_other :: "json \<Rightarrow> real option"
  Buffer_from :: "json \<Rightarrow> error + string"
  upper_other :: "char \<Rightarrow> string"

text \<open>\<open>String.prototype.toUpperCase\<close>, code unit by code unit.\<close>

definition toUpperCase :: "node \<Rightarrow> string \<Rightarrow> string" where
  "toUpperCase nd s =
     concat (map (\<lambda>c. if (of_char c :: nat) < 128 then [toUpperChar c] else upper_other nd c) s)"

text \<open>
  A file's text is modelled by what \<open>JSON.parse\<close> makes of it. A file system state holds
  the files and says which calls raise: \<open>raises fs op p\<close> is the error of \<open>op\<close> at the
  path \<open>p\<close>, if any. Directories are not tracked.
\<close>

datatype filetext = Json json | NotJson

datatype fs_op = ExistsSync | ReadFileSync | MkdirSync | WriteFileSync

record filesystem =
  files :: "string \<Rightarrow> filetext option"
  raises :: "fs_op \<Rightarrow> string \<Rightarrow> error option"

definition existsSync :: "filesystem \<Rightarrow> string \<Rightarrow> error + bool" where
  "existsSync fs p = (case raises fs ExistsSync p of
      Some e \<Rightarrow> Inl e
    | None \<Rightarrow> Inr (files fs p \<noteq> None))"

definition readFileSync :: "filesystem \<Rightarrow> string \<Rightarrow> error + filetext" where
  "readFileSync fs p = (case raises fs ReadFileSync p of
      Some e \<Rightarrow> Inl e
    | None \<Rightarrow> (case files fs p of None \<Rightarrow> Inl (Error (JStr ''ENOENT'')) | Some t \<Rightarrow> Inr t))"

definition mkdirSync :: "filesystem \<Rightarrow> string \<Rightarrow> error + filesystem" where
  "mkdirSync fs d = (case raises fs MkdirSync d of Some e \<Rightarrow> Inl e | None \<Rightarrow> Inr fs)"

definition writeFileSync :: "filesystem \<Rightarrow> string \<Rightarrow> filetext \<Rightarrow> error + filesystem" where
  "writeFileSync fs p t = (case raises fs WriteFileSync p of
      Some e \<Rightarrow> Inl e
    | None \<Rightarrow> Inr (fs\<lparr>files := (files fs)(p \<mapsto> t)\<rparr>))"

text \<open>\<open>exists(filePath)\<close>: \<open>fs.existsSync\<close> in a \<open>try\<close>, \<open>false\<close> when it raises.\<close>

definition exists_js :: "filesystem \<Rightarrow> string \<Rightarrow> bool" where
  "exists_js fs filePath = (case existsSync fs filePath of Inl _ \<Rightarrow> False | Inr b \<Rightarrow> b)"

section \<open>The executable locator (chrome.ts)\<close>

datatype kind = canary | chromium | chrome

record BrowserExecutable =
  kind :: kind
  path :: string

definition candidates :: "node \<Rightarrow> BrowserExecutable list" where
  "candidates nd =
    [\<lparr>kind = canary,
      path = ''/Applications/Google Chrome Canary.app/Contents/MacOS/Google Chrome Canary''\<rparr>,
     \<lparr>kind = canary,
      path = path_join nd [os_homedir nd,
        ''Applications/Google Chrome Canary.app/Contents/MacOS/Google Chrome Canary'']\<rparr>,
     \<lparr>kind = chromium,
      path = ''/Applications/Chromium.app/Contents/MacOS/Chromium''\<rparr>,
     \<lparr>kind = chromium,
      path = path_join nd [os_homedir nd,
        ''Applications/Chromium.app/Contents/MacOS/Chromium'']\<rparr>,
     \<lparr>kind = chrome,
      path = ''/Applications/Google Chrome.app/Contents/MacOS/Google Chrome''\<rparr>,
     \<lparr>kind = chrome,
      path = path_join nd [os_homedir nd,
        ''Applications/Google Chrome.app/Contents/MacOS/Google Chrome'']\<rparr>]"

text \<open>The loop \<open>for (const candidate of candidates) if (exists(candidate.path)) return candidate\<close>.\<close>

fun first_existing :: "filesystem \<Rightarrow> BrowserExecutable list \<Rightarrow> BrowserExecutable option" where
  "first_existing fs [] = None"
| "first_existing fs (candidate # rest) =
     (if exists_js fs (path candidate) then Some candidate else first_existing fs rest)"

definition findChromeExecutableMac :: "node \<Rightarrow> filesystem \<Rightarrow> BrowserExecutable option" where
  "findChromeExecutableMac nd fs = first_existing fs (candidates nd)"


section \<open>The profile decoration (chrome.ts)\<close>

definition decoratedMarkerPath :: "node \<Rightarrow> string \<Rightarrow> string" where
  "decoratedMarkerPath nd userDataDir = path_join nd [userDataDir, ''.clawd-profile-decorated'']"

text \<open>
  \<open>safeReadJson\<close>: everything is inside a \<open>try\<close>, so a raise of \<open>fs.readFileSync\<close> or of
  \<open>JSON.parse\<close> gives \<open>null\<close> (here \<open>None\<close>). An array passes the test
  \<open>typeof parsed !== "object" || parsed === null\<close> and is returned.
\<close>

definition safeReadJson :: "filesystem \<Rightarrow> string \<Rightarrow> json option" where
  "safeReadJson fs filePath =
     (if \<not> exists_js fs filePath then None
      else case readFileSync fs filePath of
          Inl _ \<Rightarrow> None
        | Inr NotJson \<Rightarrow> None
        | Inr (Json parsed) \<Rightarrow>
            (case parsed of JObj _ \<Rightarrow> Some parsed | JArr _ \<Rightarrow> Some parsed | _ \<Rightarrow> None))"

text \<open>\<open>safeWriteJson\<close> has no \<open>try\<close>: a raise of \<open>fs.mkdirSync\<close> or \<open>fs.writeFileSync\<close> leaves it.\<close>

definition safeWriteJson :: "node \<Rightarrow> filesystem \<Rightarrow> string \<Rightarrow> json \<Rightarrow> error + filesystem" where
  "safeWriteJson nd fs filePath data =
     (case mkdirSync fs (path_dirname nd filePath) of
        Inl e \<Rightarrow> Inl e
      | Inr fs1 \<Rightarrow> writeFileSync fs1 filePath (Json data))"

text \<open>
  \<open>setDeep\<close> on what \<open>safeReadJson(...) ?? {}\<close> gave, as \<open>JSON.stringify\<close> will write it:
  the own properties of an object; of an array the elements, and the named properties
  \<open>setDeep\<close> assigns are not among them, so the value written is the array as read.
\<close>

definition setDeep_on :: "json \<Rightarrow> string list \<Rightarrow> json \<Rightarrow> json" where
  "setDeep_on obj keys v =
     (case obj of JObj node \<Rightarrow> JObj (own (setDeep node keys v)) | _ \<Rightarrow> obj)"

definition orEmpty :: "json option \<Rightarrow> json" where
  "orEmpty r = (case r of None \<Rightarrow> JObj [] | Some j \<Rightarrow> j)"

text \<open>
  \<open>decorateClawdProfile(userDataDir, opts)\<close>. \<open>desiredName\<close> is the constant
  \<open>DEFAULT_CLAWD_BROWSER_PROFILE_NAME\<close> of \<open>constants.ts\<close>, a parameter here; \<open>now\<close> is
  \<open>Date.now()\<close>; \<open>color\<close> is \<open>opts?.color\<close>. The result is the file system after the call,
  or the error raised together with the file system at that point.
\<close>

definition decorateClawdProfile ::
  "node \<Rightarrow> string \<Rightarrow> real \<Rightarrow> filesystem \<Rightarrow> string \<Rightarrow> string option
    \<Rightarrow> (error \<times> filesystem) + filesystem" where
  "decorateClawdProfile nd desiredName now fs userDataDir color =
     (let desiredColor =
            toUpperCase nd (case color of None \<Rightarrow> DEFAULT_CLAWD_BROWSER_COLOR | Some c \<Rightarrow> c);
          localStatePath = path_join nd [userDataDir, ''Local State''];
          preferencesPath = path_join nd [userDataDir, ''Default'', ''Preferences''];
          localState0 = orEmpty (safeReadJson fs localStatePath);
          localState1 = setDeep_on localState0
            [''profile'', ''info_cache'', ''Default'', ''name''] (JStr desiredName);
          localState2 = setDeep_on localState1
            [''profile'', ''info_cache'', ''Default'', ''shortcut_name''] (JStr desiredName);
          localState3 = setDeep_on localState2
            [''profile'', ''info_cache'', ''Default'', ''user_name''] (JStr desiredName);
          localState4 = setDeep_on localState3
            [''profile'', ''info_cache'', ''Default'', ''profile_color''] (JStr desiredColor);
          localState5 = setDeep_on localState4
            [''profile'', ''info_cache'', ''Default'', ''user_color''] (JStr desiredColor)
      in case safeWriteJson nd fs localStatePath localState5 of
           Inl e \<Rightarrow> Inl (e, fs)
         | Inr fs1 \<Rightarrow>
            (let prefs0 = orEmpty (safeReadJson fs1 preferencesPath);
                 prefs1 = setDeep_on prefs0 [''profile'', ''name''] (JStr desiredName);
                 prefs2 = setDeep_on prefs1 [''profile'', ''profile_color''] (JStr desiredColor);
                 prefs3 = setDeep_on prefs2 [''profile'', ''user_color''] (JStr desiredColor)
             in case safeWriteJson nd fs1 preferencesPath prefs3 of
                  Inl e \<Rightarrow> Inl (e, fs1)
                | Inr fs2 \<Rightarrow>
                   (case writeFileSync fs2 (decoratedMarkerPath nd userDataDir) (Json (JNum now)) of
                      Inl _ \<Rightarrow> Inr fs2
                    | Inr fs3 \<Rightarrow> Inr fs3)))"

text \<open>
  The caller, in \<open>launchClawdChrome\<close>:
  \<^verbatim>\<open>try { decorateClawdProfile(userDataDir, { color: resolved.color }); logInfo(...) }
  catch (err) { logWarn(`clawd browser profile decoration failed: ${String(err)}`, runtime) }\<close>
  The step gives the line logged and the file system it leaves; the launch goes on to the
  second spawn in both cases.
\<close>

datatype logged = LogInfo | LogWarn error

definition launch_decorate ::
  "node \<Rightarrow> string \<Rightarrow> real \<Rightarrow> filesystem \<Rightarrow> string \<Rightarrow> string \<Rightarrow> logged \<times> filesystem" where
  "launch_decorate nd desiredName now fs userDataDir resolved_color =
     (case decorateClawdProfile nd desiredName now fs userDataDir (Some resolved_color) of
        Inr fs' \<Rightarrow> (LogInfo, fs')
      | Inl (err, fs') \<Rightarrow> (LogWarn err, fs'))"

section \<open>Stopping the browser (chrome.ts)\<close>

datatype signal = SIGTERM | SIGKILL

text \<open>
  \<open>proc.killed\<close> is Node's \<open>subprocess.killed\<close>: it is set by \<open>subprocess.kill()\<close> when the
  signal was sent successfully, and says nothing on whether the process has ended.
  \<open>kill\<close> returns \<open>true\<close> and sets \<open>killed\<close> (\<open>Delivered\<close>), returns \<open>false\<close> (\<open>NotDelivered\<close>,
  the process is gone already) or raises (\<open>KillRaises\<close>).
\<close>

datatype kill_result = Delivered | NotDelivered | KillRaises

record ChildProcess =
  killed :: bool

record RunningChrome =
  pid :: int
  exe :: BrowserExecutable
  userDataDir :: string
  cdpPort :: nat
  startedAt :: int
  proc :: ChildProcess

text \<open>
  What the loop of \<open>stopClawdChrome\<close> observes in one round: \<open>Date.now()\<close> at the loop
  test, \<open>proc.exitCode\<close> (\<open>None\<close> is \<open>null\<close>) and the answer \<open>isChromeReachable\<close> gives in
  that round. The world of a call: what \<open>proc.kill("SIGTERM")\<close> does, \<open>Date.now()\<close> at
  \<open>start\<close>, and the rounds that follow.
\<close>

record tick =
  now :: int
  exitCode :: "int option"
  reachable :: bool

record world =
  sigterm :: kill_result
  start_time :: int
  ticks :: "tick list"

datatype loop_exit = Returned_unreachable | Break | Expired

text \<open>
  The \<open>while\<close> loop; the count is the number of probes made. When the rounds given run
  out the loop is still running: \<open>None\<close>.
\<close>

fun poll :: "int \<Rightarrow> int \<Rightarrow> bool \<Rightarrow> tick list \<Rightarrow> nat \<Rightarrow> (loop_exit \<times> nat) option" where
  "poll start timeoutMs kd [] n = None"
| "poll start timeoutMs kd (t # ts) n =
     (if now t - start < timeoutMs then
        if (exitCode t = None \<or> exitCode t = Some 0) \<and> kd then Some (Break, n)
        else if \<not> reachable t then Some (Returned_unreachable, Suc n)
        else poll start timeoutMs kd ts (Suc n)
      else Some (Expired, n))"

record stopped =
  signals :: "signal list"
  probes :: nat

definition stopClawdChrome :: "RunningChrome \<Rightarrow> int \<Rightarrow> world \<Rightarrow> stopped option" where
  "stopClawdChrome running timeoutMs w =
     (if killed (proc running) then Some \<lparr>signals = [], probes = 0\<rparr>
      else
        let kd = (sigterm w = Delivered) in
        case poll (start_time w) timeoutMs kd (ticks w) 0 of
          None \<Rightarrow> None
        | Some (Returned_unreachable, n) \<Rightarrow> Some \<lparr>signals = [SIGTERM], probes = n\<rparr>
        | Some (_, n) \<Rightarrow> Some \<lparr>signals = [SIGTERM, SIGKILL], probes = n\<rparr>)"


section \<open>The protocol client (cdp.ts)\<close>

subsection \<open>Reading JavaScript values\<close>

text \<open>
  A value that may be \<open>undefined\<close> is a \<^typ>\<open>json option\<close>. \<open>get_prop v k\<close> is \<open>v.k\<close> for a
  \<open>v\<close> that is neither \<open>null\<close> nor \<open>undefined\<close> (the keys read here name no built-in
  property of a string, a number or an array); \<open>opt_prop v k\<close> is \<open>v?.k\<close>; \<open>nullish a b\<close>
  is \<open>a ?? b\<close>; \<open>truthy\<close> is the test of \<open>if (v)\<close>.
\<close>

definition get_prop :: "json \<Rightarrow> string \<Rightarrow> json option" where
  "get_prop v k = (case v of JObj node \<Rightarrow> obj_get node k | _ \<Rightarrow> None)"

definition opt_prop :: "json option \<Rightarrow> string \<Rightarrow> json option" where
  "opt_prop v k = (case v of None \<Rightarrow> None | Some JNull \<Rightarrow> None | Some j \<Rightarrow> get_prop j k)"

definition nullish :: "json option \<Rightarrow> json option \<Rightarrow> json option" where
  "nullish a b = (case a of None \<Rightarrow> b | Some JNull \<Rightarrow> b | Some j \<Rightarrow> Some j)"

fun truthy :: "json \<Rightarrow> bool" where
  "truthy JNull = False"
| "truthy (JBool b) = b"
| "truthy (JNum x) = (x \<noteq> 0)"
| "truthy (JStr s) = (s \<noteq> [])"
| "truthy (JArr _) = True"
| "truthy (JObj _) = True"


text \<open>\<open>Number(v)\<close> for \<open>v\<close> not \<open>undefined\<close>; \<open>None\<close> is \<open>NaN\<close>.\<close>

definition Number_js :: "node \<Rightarrow> json \<Rightarrow> real option" where
  "Number_js nd v = (case v of
      JNum x \<Rightarrow> Some x
    | JBool b \<Rightarrow> Some (if b then 1 else 0)
    | JNull \<Rightarrow> Some 0
    | _ \<Rightarrow> Number_other nd v)"

subsection \<open>The connection: ids, pending commands, close\<close>

text \<open>
  A promise is named by where it was made: \<open>openPromise\<close>, or the promise \<open>send\<close> returned
  for the command to which it gave the id \<open>i\<close>. The \<open>Pending\<close> entry \<open>{resolve, reject}\<close>
  of the map is modelled by the promise these two functions settle. Settling is recorded
  in \<open>settled\<close>, oldest first; the first record of a promise is its outcome, as a promise
  is settled once.
\<close>

datatype promise = OpenPromise | SendPromise real

datatype outcome = Fulfilled "json option" | Rejected error

record msg =
  msg_id :: real
  msg_method :: string
  msg_params :: "json option"

datatype stage =
    AwaitOpen
  | AwaitEnable promise
  | AwaitMetrics promise
  | AwaitCapture promise
  | Returned string
  | Threw error

text \<open>
  The state of one call of \<open>captureScreenshotPng\<close>: its local variables \<open>nextId\<close> and
  \<open>pending\<close> (a \<open>Map\<close>, in insertion order), the frames given to \<open>ws.send\<close> (oldest first),
  whether \<open>ws.close()\<close> was called, the promises settled, and where the \<open>async\<close> function
  stands. Ids are reals: the counting is exact below \<open>2^53\<close>.
\<close>

record client =
  nextId :: real
  pending :: "(real \<times> promise) list"
  sent :: "msg list"
  ws_closed :: bool
  settled :: "(promise \<times> outcome) list"
  stage :: stage

definition start :: client where
  "start = \<lparr>nextId = 1, pending = [], sent = [], ws_closed = False, settled = [],
     stage = AwaitOpen\<rparr>"

text \<open>\<open>pending.set(id, p)\<close>.\<close>

fun map_set :: "(real \<times> promise) list \<Rightarrow> real \<Rightarrow> promise \<Rightarrow> (real \<times> promise) list" where
  "map_set [] i p = [(i, p)]"
| "map_set ((k, q) # rest) i p = (if k = i then (i, p) # rest else (k, q) # map_set rest i p)"

text \<open>\<open>pending.delete(id)\<close>.\<close>

definition map_delete :: "(real \<times> promise) list \<Rightarrow> real \<Rightarrow> (real \<times> promise) list" where
  "map_delete m i = filter (\<lambda>(k, q). k \<noteq> i) m"

definition settle :: "promise \<Rightarrow> outcome \<Rightarrow> client \<Rightarrow> client" where
  "settle p out c = c\<lparr>settled := settled c @ [(p, out)]\<rparr>"

text \<open>
  \<open>send(method, params)\<close>: the promise returned, and the state after. \<open>ws.send\<close> raises
  only on a socket that is still connecting; the call sends after the \<open>open\<close> event only.
\<close>

definition send :: "string \<Rightarrow> json option \<Rightarrow> client \<Rightarrow> promise \<times> client" where
  "send method params c =
     (let i = nextId c in
      (SendPromise i,
       c\<lparr>nextId := i + 1,
         sent := sent c @ [\<lparr>msg_id = i, msg_method = method, msg_params = params\<rparr>],
         pending := map_set (pending c) i (SendPromise i)\<rparr>))"

text \<open>\<open>closeWithError(err)\<close>: reject every pending command, clear the map, close the socket.\<close>

definition closeWithError :: "error \<Rightarrow> client \<Rightarrow> client" where
  "closeWithError err c =
     c\<lparr>settled := settled c @ map (\<lambda>(i, p). (p, Rejected err)) (pending c),
       pending := [],
       ws_closed := True\<rparr>"

text \<open>
  How a frame that matched a pending command settles it: \<open>reject(new Error(message))\<close>
  when \<open>parsed.error?.message\<close> is truthy, \<open>resolve(parsed.result)\<close> otherwise.
\<close>

definition frame_outcome :: "json \<Rightarrow> outcome" where
  "frame_outcome parsed =
     (case opt_prop (get_prop parsed ''error'') ''message'' of
        None \<Rightarrow> Fulfilled (get_prop parsed ''result'')
      | Some m \<Rightarrow>
          if truthy m then Rejected (Error m) else Fulfilled (get_prop parsed ''result''))"

text \<open>
  The \<open>message\<close> handler, on what \<open>JSON.parse(String(data))\<close> gives (\<open>None\<close> when it raises).
  Reading \<open>parsed.id\<close> of \<open>null\<close> raises; the handler's \<open>catch\<close> ignores both raises.
\<close>

definition onMessage :: "json option \<Rightarrow> client \<Rightarrow> client" where
  "onMessage data c =
     (case data of
        None \<Rightarrow> c
      | Some JNull \<Rightarrow> c
      | Some parsed \<Rightarrow>
         (case get_prop parsed ''id'' of
            Some (JNum i) \<Rightarrow>
              (case map_of (pending c) i of
                 None \<Rightarrow> c
               | Some p \<Rightarrow>
                  settle p (frame_outcome parsed) (c\<lparr>pending := map_delete (pending c) i\<rparr>))
          | _ \<Rightarrow> c))"

text \<open>The \<open>close\<close> handler.\<close>

definition onClose :: "client \<Rightarrow> client" where
  "onClose c = closeWithError (Error (JStr ''CDP socket closed'')) c"

subsection \<open>The capture sequence\<close>

record opts =
  wsUrl :: string
  fullPage :: bool

text \<open>
  The locals \<open>size\<close>, \<open>width\<close> and \<open>height\<close>:
  \<open>metrics?.cssContentSize ?? metrics?.contentSize\<close> and \<open>Number(size?.width ?? 0)\<close>.
\<close>

definition content_size :: "json option \<Rightarrow> json option" where
  "content_size metrics =
     nullish (opt_prop metrics ''cssContentSize'') (opt_prop metrics ''contentSize'')"

definition dimension :: "node \<Rightarrow> json option \<Rightarrow> string \<Rightarrow> real option" where
  "dimension nd sz k =
     (case nullish (opt_prop sz k) (Some (JNum 0)) of
        None \<Rightarrow> None
      | Some v \<Rightarrow> Number_js nd v)"

text \<open>\<open>width > 0 && height > 0\<close>; a comparison with \<open>NaN\<close> is false.\<close>

definition positive :: "real option \<Rightarrow> bool" where
  "positive x = (case x of None \<Rightarrow> False | Some r \<Rightarrow> r > 0)"

definition clip_of :: "node \<Rightarrow> json option \<Rightarrow> json option" where
  "clip_of nd metrics =
     (let size = content_size metrics;
          width = dimension nd size ''width'';
          height = dimension nd size ''height''
      in if positive width \<and> positive height then
           Some (JObj [(''x'', JNum 0), (''y'', JNum 0), (''width'', JNum (the width)),
                       (''height'', JNum (the height)), (''scale'', JNum 1)])
         else None)"

definition captureParams :: "json option \<Rightarrow> json" where
  "captureParams clip =
     JObj ([(''format'', JStr ''png''), (''fromSurface'', JBool True),
            (''captureBeyondViewport'', JBool True)]
           @ (case clip of None \<Rightarrow> [] | Some c \<Rightarrow> [(''clip'', c)]))"

definition missing_data :: error where
  "missing_data = Error (JStr ''Screenshot failed: missing data'')"

text \<open>\<open>await send(method, params)\<close>: send, then wait for the promise at the stage \<open>k\<close>.\<close>

definition await_send :: "string \<Rightarrow> json option \<Rightarrow> (promise \<Rightarrow> stage) \<Rightarrow> client \<Rightarrow> client" where
  "await_send method params k c = (case send method params c of (p, c') \<Rightarrow> c'\<lparr>stage := k p\<rparr>)"

text \<open>
  The \<open>async\<close> function runs on from an \<open>await\<close> once the promise it waits for is settled:
  a rejection is thrown (the function has no \<open>try\<close> around its awaits, so nothing closes
  the socket then), a value lets it go on to the next \<open>await\<close>, to \<open>return\<close> or to \<open>throw\<close>.
  \<open>resume\<close> is what the function does when it is given the turn.
\<close>

definition resume :: "node \<Rightarrow> opts \<Rightarrow> client \<Rightarrow> client" where
  "resume nd os c =
     (case stage c of
        AwaitOpen \<Rightarrow>
          (case map_of (settled c) OpenPromise of
             None \<Rightarrow> c
           | Some (Rejected e) \<Rightarrow> c\<lparr>stage := Threw e\<rparr>
           | Some (Fulfilled _) \<Rightarrow> await_send ''Page.enable'' None AwaitEnable c)
      | AwaitEnable p \<Rightarrow>
          (case map_of (settled c) p of
             None \<Rightarrow> c
           | Some (Rejected e) \<Rightarrow> c\<lparr>stage := Threw e\<rparr>
           | Some (Fulfilled _) \<Rightarrow>
               if fullPage os then await_send ''Page.getLayoutMetrics'' None AwaitMetrics c
               else await_send ''Page.captureScreenshot'' (Some (captureParams None))
                      AwaitCapture c)
      | AwaitMetrics p \<Rightarrow>
          (case map_of (settled c) p of
             None \<Rightarrow> c
           | Some (Rejected e) \<Rightarrow> c\<lparr>stage := Threw e\<rparr>
           | Some (Fulfilled metrics) \<Rightarrow>
               await_send ''Page.captureScreenshot''
                 (Some (captureParams (clip_of nd metrics))) AwaitCapture c)
      | AwaitCapture p \<Rightarrow>
          (case map_of (settled c) p of
             None \<Rightarrow> c
           | Some (Rejected e) \<Rightarrow> c\<lparr>stage := Threw e\<rparr>
           | Some (Fulfilled result) \<Rightarrow>
              (case opt_prop result ''data'' of
                 None \<Rightarrow> (closeWithError missing_data c)\<lparr>stage := Threw missing_data\<rparr>
               | Some base64 \<Rightarrow>
                  if \<not> truthy base64 then
                    (closeWithError missing_data c)\<lparr>stage := Threw missing_data\<rparr>
                  else
                    c\<lparr>ws_closed := True,
                      stage := (case Buffer_from nd base64 of
                                  Inl e \<Rightarrow> Threw e
                                | Inr bytes \<Rightarrow> Returned bytes)\<rparr>))
      | Returned _ \<Rightarrow> c
      | Threw _ \<Rightarrow> c)"

text \<open>
  What the socket does to the call: the \<open>open\<close> and \<open>error\<close> events settle \<open>openPromise\<close>,
  a \<open>message\<close> event runs the message handler, a \<open>close\<close> event the close handler. A
  handler settles promises and no more; the function resumes later, when the handlers
  that run in the same tick are done (the continuation of an \<open>await\<close> is a microtask). So
  several handlers may run before the function resumes: a frame that comes in the tick of
  the \<open>open\<close> event finds nothing pending and is dropped.
\<close>

datatype event = Open | SocketError error | Message "json option" | Close

fun fire :: "event \<Rightarrow> client \<Rightarrow> client" where
  "fire Open c = settle OpenPromise (Fulfilled None) c"
| "fire (SocketError err) c = settle OpenPromise (Rejected err) c"
| "fire (Message data) c = onMessage data c"
| "fire Close c = onClose c"

text \<open>One handler and the resumption after it: a tick with a single event.\<close>

definition step :: "node \<Rightarrow> opts \<Rightarrow> event \<Rightarrow> client \<Rightarrow> client" where
  "step nd os ev c = resume nd os (fire ev c)"

text \<open>
  A schedule says, in order, which handlers ran and where the function was given the
  turn. \<open>in_ticks\<close> is the schedule of the code for events that arrive in groups, one group a
  tick: the handlers of the group, then the function. The statements on
  \<open>captureScreenshotPng\<close> below are for every schedule, those of \<open>in_ticks\<close> among them.
\<close>

datatype turn = Handle event | Resume

fun take_turn :: "node \<Rightarrow> opts \<Rightarrow> turn \<Rightarrow> client \<Rightarrow> client" where
  "take_turn nd os (Handle ev) c = fire ev c"
| "take_turn nd os Resume c = resume nd os c"

fun run :: "node \<Rightarrow> opts \<Rightarrow> client \<Rightarrow> turn list \<Rightarrow> client" where
  "run nd os c [] = c"
| "run nd os c (t # ts) = run nd os (take_turn nd os t c) ts"

definition in_ticks :: "event list list \<Rightarrow> turn list" where
  "in_ticks groups = concat (map (\<lambda>evs. map Handle evs @ [Resume]) groups)"

text \<open>\<open>captureScreenshotPng(opts)\<close>, as far as the schedule given takes it.\<close>

definition captureScreenshotPng :: "node \<Rightarrow> opts \<Rightarrow> turn list \<Rightarrow> client" where
  "captureScreenshotPng nd os ts = run nd os start ts"


section \<open>Names for the statements, and example inputs\<close>

text \<open>The two install locations of the stable release, as \<open>candidates\<close> lists them.\<close>

definition stable_system :: string where
  "stable_system = ''/Applications/Google Chrome.app/Contents/MacOS/Google Chrome''"

definition stable_user :: "node \<Rightarrow> string" where
  "stable_user nd = path_join nd [os_homedir nd,
     ''Applications/Google Chrome.app/Contents/MacOS/Google Chrome'']"

text \<open>The two preference files of a profile directory, and whether writing one raises.\<close>

definition localStatePath :: "node \<Rightarrow> string \<Rightarrow> string" where
  "localStatePath nd dir = path_join nd [dir, ''Local State'']"

definition preferencesPath :: "node \<Rightarrow> string \<Rightarrow> string" where
  "preferencesPath nd dir = path_join nd [dir, ''Default'', ''Preferences'']"

definition write_raises :: "node \<Rightarrow> filesystem \<Rightarrow> string \<Rightarrow> bool" where
  "write_raises nd fs filePath =
     (raises fs MkdirSync (path_dirname nd filePath) \<noteq> None
      \<or> raises fs WriteFileSync filePath \<noteq> None)"

text \<open>The id of an inbound frame, when \<open>typeof parsed.id === "number"\<close>.\<close>

definition frame_id :: "json option \<Rightarrow> real option" where
  "frame_id data = (case data of
      Some (JObj node) \<Rightarrow> (case obj_get node ''id'' of Some (JNum i) \<Rightarrow> Some i | _ \<Rightarrow> None)
    | _ \<Rightarrow> None)"

text \<open>
  Any use of one connection: commands sent, frames that come in and the close of the
  socket, in any order.
\<close>

datatype conn_op = DoSend string "json option" | GotMessage "json option" | GotClose

fun conn_apply :: "conn_op \<Rightarrow> client \<Rightarrow> client" where
  "conn_apply (DoSend method params) c = snd (send method params c)"
| "conn_apply (GotMessage data) c = onMessage data c"
| "conn_apply GotClose c = onClose c"

fun conn_run :: "client \<Rightarrow> conn_op list \<Rightarrow> client" where
  "conn_run c [] = c"
| "conn_run c (x # xs) = conn_run (conn_apply x c) xs"

text \<open>The ids given out so far are \<open>1, 2, ...\<close> in the order of sending, and \<open>nextId\<close> is the next.\<close>

definition ids_in_order :: "client \<Rightarrow> bool" where
  "ids_in_order c =
     (nextId c = real (length (sent c)) + 1
      \<and> map msg_id (sent c) = map real [1 ..< Suc (length (sent c))])"

text \<open>
  The call waits for the promise \<open>p\<close> of its last command: either that command is the one
  pending entry and \<open>p\<close> is not settled, or nothing is pending and \<open>p\<close> is settled.
\<close>

definition waits :: "client \<Rightarrow> promise \<Rightarrow> bool" where
  "waits c p =
     (case p of
        OpenPromise \<Rightarrow> False
      | SendPromise i \<Rightarrow>
          i < nextId c
          \<and> ((pending c = [(i, p)] \<and> map_of (settled c) p = None)
             \<or> (pending c = [] \<and> map_of (settled c) p \<noteq> None)))"

text \<open>Every promise of a command that is settled belongs to an id below \<open>n\<close>.\<close>

definition settled_below :: "real \<Rightarrow> (promise \<times> outcome) list \<Rightarrow> bool" where
  "settled_below n xs =
     list_all (\<lambda>(q, out). case q of OpenPromise \<Rightarrow> True | SendPromise j \<Rightarrow> j < n) xs"

definition in_step :: "client \<Rightarrow> bool" where
  "in_step c =
     (settled_below (nextId c) (settled c)
      \<and> (case stage c of
            AwaitOpen \<Rightarrow> pending c = []
          | AwaitEnable p \<Rightarrow> waits c p
          | AwaitMetrics p \<Rightarrow> waits c p
          | AwaitCapture p \<Rightarrow> waits c p
          | Returned _ \<Rightarrow> pending c = []
          | Threw _ \<Rightarrow> pending c = []))"

text \<open>The commands of a capture, in order, and how far a call at a given stage has come.\<close>

definition script :: "opts \<Rightarrow> string list" where
  "script os =
     (if fullPage os
      then [''Page.enable'', ''Page.getLayoutMetrics'', ''Page.captureScreenshot'']
      else [''Page.enable'', ''Page.captureScreenshot''])"

definition on_script :: "opts \<Rightarrow> client \<Rightarrow> bool" where
  "on_script os c =
     (let ms = map msg_method (sent c) in
      case stage c of
        AwaitOpen \<Rightarrow> ms = []
      | AwaitEnable _ \<Rightarrow> ms = [''Page.enable'']
      | AwaitMetrics _ \<Rightarrow> fullPage os \<and> ms = [''Page.enable'', ''Page.getLayoutMetrics'']
      | AwaitCapture _ \<Rightarrow> ms = script os
      | Returned _ \<Rightarrow> ms = script os
      | Threw _ \<Rightarrow> prefix ms (script os))"

text \<open>A capture of the viewport, and one of the full page.\<close>

definition opts_viewport :: opts where
  "opts_viewport = \<lparr>wsUrl = ''ws://127.0.0.1:18791/devtools/page/A'', fullPage = False\<rparr>"

definition opts_full :: opts where
  "opts_full = \<lparr>wsUrl = ''ws://127.0.0.1:18791/devtools/page/A'', fullPage = True\<rparr>"

text \<open>An inbound frame \<open>{id: i, result: r}\<close>.\<close>

definition reply :: "real \<Rightarrow> json \<Rightarrow> event" where
  "reply i r = Message (Some (JObj [(''id'', JNum i), (''result'', r)]))"

text \<open>
  An example host: paths joined with \<open>/\<close>, the directory of a path up to its last \<open>/\<close>,
  a home directory, no conversion of text to numbers, a \<open>Buffer.from\<close> that hands a
  string back undecoded and raises on anything else, and code units from 128 on (none
  occurs in the examples) taken as their own upper-case form.
\<close>

definition example_node :: node where
  "example_node =
     \<lparr>path_join = (\<lambda>ps. foldr (\<lambda>a b. if b = [] then a else a @ ''/'' @ b) ps []),
      path_dirname = (\<lambda>p. rev (tl (dropWhile (\<lambda>c. c \<noteq> CHR ''/'') (rev p)))),
      os_homedir = ''/Users/me'',
      Number_other = (\<lambda>_. None),
      Buffer_from = (\<lambda>j. case j of JStr b \<Rightarrow> Inr b | _ \<Rightarrow> Inl (Error (JStr ''TypeError''))),
      upper_other = (\<lambda>c. [c])\<rparr>"

text \<open>A machine with only the stable release, system-wide; one with no browser.\<close>

definition fs_stable_only :: filesystem where
  "fs_stable_only = \<lparr>files = (\<lambda>p. if p = stable_system then Some NotJson else None),
     raises = (\<lambda>_ _. None)\<rparr>"

definition fs_empty :: filesystem where
  "fs_empty = \<lparr>files = (\<lambda>_. None), raises = (\<lambda>_ _. None)\<rparr>"

text \<open>A profile directory \<open>/d\<close> whose \<open>Local State\<close> cannot be written.\<close>

definition fs_no_write :: filesystem where
  "fs_no_write = \<lparr>files = (\<lambda>_. None),
     raises = (\<lambda>op p. if op = WriteFileSync \<and> p = ''/d/Local State''
                       then Some (Error (JStr ''EACCES'')) else None)\<rparr>"

text \<open>
  A profile directory \<open>/d\<close> where every check and every read raises and the marker cannot
  be written, while the two preference files can.
\<close>

definition fs_no_read :: filesystem where
  "fs_no_read = \<lparr>files = (\<lambda>_. Some NotJson),
     raises = (\<lambda>op p. if op = ExistsSync \<or> op = ReadFileSync
                         \<or> (op = WriteFileSync \<and> p = ''/d/.clawd-profile-decorated'')
                       then Some (Error (JStr ''EIO'')) else None)\<rparr>"

text \<open>A browser just started, no signal sent to it yet.\<close>

definition running_example :: RunningChrome where
  "running_example = \<lparr>pid = 4242, exe = \<lparr>kind = chrome, path = stable_system\<rparr>,
     userDataDir = ''/d'', cdpPort = 18791, startedAt = 0, proc = \<lparr>killed = False\<rparr>\<rparr>"

text \<open>
  A world in which \<open>SIGTERM\<close> is delivered, the loop test comes in the same millisecond as
  \<open>start\<close>, the process has no exit code yet and the debug endpoint answers no more.
\<close>

definition world_example :: world where
  "world_example = \<lparr>sigterm = Delivered, start_time = 1000,
     ticks = [\<lparr>now = 1000, exitCode = None, reachable = False\<rparr>]\<rparr>"

section \<open>Color normalization: what holds\<close>

lemma hex_not_space: "isHexDigit c \<Longrightarrow> \<not> isWhiteSpace c"
  by (auto simp: isHexDigit_def isWhiteSpace_def)

lemma hash_not_space: "\<not> isWhiteSpace CHR ''#''"
  by (simp add: isWhiteSpace_def)

lemma upper_hash: "toUpperChar CHR ''#'' = CHR ''#''"
  by (simp add: toUpperChar_def)

lemma upper_hex_all: "list_all (\<lambda>c. isUpperHex (toUpperChar c)) ''0123456789abcdefABCDEF''"
  by code_simp

lemma upper_hex: "isHexDigit c \<Longrightarrow> isUpperHex (toUpperChar c)"
  using upper_hex_all unfolding isHexDigit_def list_all_iff by blast

lemma trim_id:
  assumes "s \<noteq> []" "\<not> isWhiteSpace (hd s)" "\<not> isWhiteSpace (last s)"
  shows "trim s = s"
proof -
  from assms have front: "dropWhile isWhiteSpace s = s"
    by (cases s) auto
  from assms have rear: "dropWhile isWhiteSpace (rev s) = rev s"
    by (cases "rev s") (auto simp: last_rev hd_rev)
  show ?thesis by (simp add: trim_def front rear)
qed

lemma valid_no_space: "valid_hex6 s \<Longrightarrow> c \<in> set s \<Longrightarrow> \<not> isWhiteSpace c"
  by (cases s)
     (auto simp: valid_hex6_def strip_hash_def list_all_iff hex_not_space hash_not_space
           split: if_splits)

lemma valid_trim:
  assumes "valid_hex6 s"
  shows "trim s = s"
proof -
  from assms have ne: "s \<noteq> []"
    by (auto simp: valid_hex6_def strip_hash_def)
  then have "hd s \<in> set s" "last s \<in> set s" by simp_all
  with assms have "\<not> isWhiteSpace (hd s)" "\<not> isWhiteSpace (last s)"
    by (auto dest: valid_no_space)
  with ne show ?thesis by (rule trim_id)
qed

lemma normalizeHexColor_cases:
  "normalizeHexColor raw =
     (if valid_hex6 (trimmed_input raw)
      then CHR ''#'' # map toUpperChar (strip_hash (trimmed_input raw))
      else DEFAULT_CLAWD_BROWSER_COLOR)"
proof (cases "trimmed_input raw")
  case Nil
  then show ?thesis
    by (simp add: normalizeHexColor_def trimmed_input_def valid_hex6_def strip_hash_def)
next
  case (Cons c ds)
  then show ?thesis
    by (auto simp: normalizeHexColor_def trimmed_input_def valid_hex6_def strip_hash_def
          startsWith_def test_hex6_def toUpperCase_ascii_def upper_hash)
qed

text \<open>
  Claim C9, as stated: every valid 6-hex-digit color, with or without a leading \<open>#\<close>, is
  normalized to its uppercase \<open>#RRGGBB\<close> form, and every invalid input (wrong length,
  non-hex characters, or empty) gives the fixed default color. The second half fails:
  \<open>" 00ff00"\<close> has seven characters, a space among them, and is normalized to
  \<open>#00FF00\<close>, which is not the default, because the source trims its input first.
\<close>

theorem normalizeHexColor_padded_counterexample:
  "\<not> valid_hex6 '' 00ff00''
   \<and> normalizeHexColor (Some '' 00ff00'') = ''#00FF00''
   \<and> normalizeHexColor (Some '' 00ff00'') \<noteq> DEFAULT_CLAWD_BROWSER_COLOR"
  by (simp add: normalizeHexColor_def trim_def isWhiteSpace_def startsWith_def test_hex6_def
        isHexDigit_def toUpperCase_ascii_def toUpperChar_def valid_hex6_def strip_hash_def
        DEFAULT_CLAWD_BROWSER_COLOR_def)

text \<open>
  Claim C9, amended: when the input with its surrounding white space removed is a valid
  6-hex-digit color, with or without a leading \<open>#\<close>, the result is the uppercase
  \<open>#RRGGBB\<close> form of the trimmed input (a \<open>#\<close> and six digits out of \<open>0-9A-F\<close>); for
  every other input, an absent one too, the result is the fixed default color. A valid
  color holds no white space, so it is its own trimmed form.
\<close>

theorem normalizeHexColor_trimmed:
  "(valid_hex6 (trimmed_input raw) \<longrightarrow>
      normalizeHexColor raw = CHR ''#'' # map toUpperChar (strip_hash (trimmed_input raw))
      \<and> length (normalizeHexColor raw) = 7
      \<and> list_all isUpperHex (tl (normalizeHexColor raw)))
   \<and> (\<not> valid_hex6 (trimmed_input raw) \<longrightarrow>
        normalizeHexColor raw = DEFAULT_CLAWD_BROWSER_COLOR)
   \<and> (\<forall>s. valid_hex6 s \<and> raw = Some s \<longrightarrow> trimmed_input raw = s)"
proof (intro conjI impI allI)
  assume v: "valid_hex6 (trimmed_input raw)"
  then show eq: "normalizeHexColor raw
      = CHR ''#'' # map toUpperChar (strip_hash (trimmed_input raw))"
    by (simp add: normalizeHexColor_cases)
  from v show "length (normalizeHexColor raw) = 7"
    by (simp add: eq valid_hex6_def)
  from v show "list_all isUpperHex (tl (normalizeHexColor raw))"
    by (simp add: eq valid_hex6_def list_all_iff upper_hex)
next
  assume "\<not> valid_hex6 (trimmed_input raw)"
  then show "normalizeHexColor raw = DEFAULT_CLAWD_BROWSER_COLOR"
    by (simp add: normalizeHexColor_cases)
next
  fix s
  assume "valid_hex6 s \<and> raw = Some s"
  then show "trimmed_input raw = s"
    by (simp add: trimmed_input_def valid_trim)
qed

theorem normalizeHexColor_trimmed_witness:
  "valid_hex6 (trimmed_input (Some '' 00ff00''))
   \<and> normalizeHexColor (Some '' 00ff00'') = ''#00FF00''
   \<and> \<not> valid_hex6 (trimmed_input (Some ''#GGGGGG''))
   \<and> normalizeHexColor (Some ''#GGGGGG'') = ''#FF4500''
   \<and> \<not> valid_hex6 (trimmed_input None)
   \<and> normalizeHexColor None = ''#FF4500''
   \<and> valid_hex6 ''ff4500''
   \<and> normalizeHexColor (Some ''ff4500'') = ''#FF4500''"
  using normalizeHexColor_trimmed [of "Some '' 00ff00''"]
    normalizeHexColor_trimmed [of "Some ''#GGGGGG''"]
    normalizeHexColor_trimmed [of None]
    normalizeHexColor_trimmed [of "Some ''ff4500''"]
  by (simp add: trimmed_input_def trim_def isWhiteSpace_def isHexDigit_def toUpperChar_def
        valid_hex6_def strip_hash_def DEFAULT_CLAWD_BROWSER_COLOR_def)

section \<open>The deep-set utility: what holds\<close>

lemma obj_get_set:
  "obj_get (obj_set node key v) k = (if k = key then Some v else obj_get node k)"
  by (induction node) (auto simp: obj_get_def)

lemma getDeep_next_node:
  assumes "qs \<noteq> []"
  shows "getDeep (JObj (next_node nxt)) qs
       = (case nxt of None \<Rightarrow> None | Some j \<Rightarrow> getDeep j qs)"
proof -
  from assms obtain k ks where qs: "qs = k # ks" by (cases qs) auto
  show ?thesis
  proof (cases nxt)
    case None
    then show ?thesis by (simp add: qs next_node_def obj_get_def)
  next
    case (Some j)
    then show ?thesis by (cases j) (simp_all add: qs next_node_def obj_get_def)
  qed
qed

lemma assign_plain:
  "''__proto__'' \<noteq> key \<Longrightarrow> assign_key node key v = Bound (obj_set node key v)"
  by (simp add: assign_key_def reads_prototype_def)

lemma own_step:
  "''__proto__'' \<noteq> key \<Longrightarrow>
   own (setDeep node (key # key' # keys) v)
     = obj_set node key (JObj (own (setDeep (next_node (obj_get node key)) (key' # keys) v)))"
  by (cases "setDeep (next_node (obj_get node key)) (key' # keys) v")
     (simp_all add: reads_prototype_def own_def)

lemma setDeep_Bound:
  "keys \<noteq> [] \<Longrightarrow> ''__proto__'' \<notin> set keys \<Longrightarrow>
   setDeep node keys v = Bound (own (setDeep node keys v))"
proof (induction node keys v rule: setDeep.induct)
  case (1 node v)
  then show ?case by simp
next
  case (2 node key v)
  then show ?case by (simp add: assign_plain own_def)
next
  case (3 node key key' keys v)
  from 3(3) have nr: "\<not> reads_prototype node key" and rest: "''__proto__'' \<notin> set (key' # keys)"
    by (auto simp: reads_prototype_def)
  from 3(1)[OF nr _ rest]
  have "setDeep (next_node (obj_get node key)) (key' # keys) v
      = Bound (own (setDeep (next_node (obj_get node key)) (key' # keys) v))"
    by simp
  with nr show ?case
    by (cases "setDeep (next_node (obj_get node key)) (key' # keys) v")
       (simp_all add: own_def)
qed

lemma setDeep_binds:
  "keys \<noteq> [] \<Longrightarrow> ''__proto__'' \<notin> set keys \<Longrightarrow>
   getDeep (JObj (own (setDeep node keys v))) keys = Some v"
proof (induction node keys v rule: setDeep.induct)
  case (1 node v)
  then show ?case by simp
next
  case (2 node key v)
  then show ?case by (simp add: assign_plain own_def obj_get_set)
next
  case (3 node key key' keys v)
  from 3(3) have np: "''__proto__'' \<noteq> key" and rest: "''__proto__'' \<notin> set (key' # keys)"
    by auto
  then have nr: "\<not> reads_prototype node key" by (auto simp: reads_prototype_def)
  from 3(1)[OF nr _ rest]
  have deep: "getDeep (JObj (own (setDeep (next_node (obj_get node key)) (key' # keys) v)))
      (key' # keys) = Some v"
    by simp
  have "getDeep (JObj (own (setDeep node (key # key' # keys) v))) (key # key' # keys)
      = getDeep (JObj (own (setDeep (next_node (obj_get node key)) (key' # keys) v)))
          (key' # keys)"
    by (simp only: own_step[OF np] getDeep.simps obj_get_set) simp
  with deep show ?case by simp
qed

lemma setDeep_frame:
  "''__proto__'' \<notin> set keys \<Longrightarrow> \<not> prefix q keys \<Longrightarrow> \<not> prefix keys q \<Longrightarrow>
   getDeep (JObj (own (setDeep node keys v))) q = getDeep (JObj node) q"
proof (induction node keys v arbitrary: q rule: setDeep.induct)
  case (1 node v)
  then show ?case by simp
next
  case (2 node key v)
  then show ?case by (cases q) (auto simp: assign_plain own_def obj_get_set)
next
  case (3 node key key' keys v)
  from 3(2) have np: "''__proto__'' \<noteq> key" and rest: "''__proto__'' \<notin> set (key' # keys)"
    by auto
  then have nr: "\<not> reads_prototype node key" by (simp add: reads_prototype_def)
  show ?case
  proof (cases q)
    case Nil
    with 3 show ?thesis by simp
  next
    case (Cons k qs)
    show ?thesis
    proof (cases "k = key")
      case False
      with Cons np show ?thesis by (simp add: own_step obj_get_set del: setDeep.simps)
    next
      case True
      with Cons 3(3,4) have apart: "\<not> prefix qs (key' # keys)" "\<not> prefix (key' # keys) qs"
        by auto
      then have "qs \<noteq> []" by auto
      with 3(1)[OF nr rest apart] True Cons np show ?thesis
        by (simp add: own_step obj_get_set getDeep_next_node del: setDeep.simps
              split: option.splits)
    qed
  qed
qed

lemma setDeep_traversed:
  "rest \<noteq> [] \<Longrightarrow> ''__proto__'' \<notin> set (pre @ k # rest) \<Longrightarrow>
   getDeep (JObj (own (setDeep node (pre @ k # rest) v))) (pre @ [k])
     = Some (JObj (own (setDeep (next_node (getDeep (JObj node) (pre @ [k]))) rest v)))"
proof (induction pre arbitrary: node)
  case Nil
  then obtain k' ks where "rest = k' # ks" by (cases rest) auto
  with Nil show ?case
    by (cases "obj_get node k") (simp_all add: own_step obj_get_set del: setDeep.simps)
next
  case (Cons a pre)
  from Cons.prems have na: "''__proto__'' \<noteq> a" and rest: "''__proto__'' \<notin> set (pre @ k # rest)"
    by auto
  have step: "own (setDeep node (a # pre @ k # rest) v)
      = obj_set node a (JObj (own (setDeep (next_node (obj_get node a)) (pre @ k # rest) v)))"
    using na by (cases pre) (simp_all add: own_step del: setDeep.simps)
  have "getDeep (JObj (next_node (obj_get node a))) (pre @ [k])
      = (case obj_get node a of None \<Rightarrow> None | Some j \<Rightarrow> getDeep j (pre @ [k]))"
    by (rule getDeep_next_node) simp
  with Cons.IH[OF Cons.prems(1) rest, of "next_node (obj_get node a)"] show ?case
    by (simp add: step obj_get_set)
qed

text \<open>
  Claim C7, as stated: for every tree value, non-empty key path and value, the deep-set
  utility binds the value at the end of the path. It does not when the path holds the
  key \<open>__proto__\<close>: on \<open>{}\<close> and the path \<open>["__proto__"]\<close> the source's assignment goes to the
  setter that \<open>Object.prototype\<close> has under that name and binds nothing in the tree, and
  on the path \<open>["__proto__", "polluted"]\<close> the walk moves to \<open>Object.prototype\<close> and
  assigns there.
\<close>

theorem setDeep_proto_counterexample:
  "setDeep [] [''__proto__''] (JStr ''v'') = Outside []
   \<and> getDeep (JObj (own (setDeep [] [''__proto__''] (JStr ''v'')))) [''__proto__''] = None
   \<and> setDeep [] [''__proto__'', ''polluted''] (JStr ''v'') = Outside []
   \<and> getDeep (JObj (own (setDeep [] [''__proto__'', ''polluted''] (JStr ''v''))))
        [''__proto__'', ''polluted''] = None"
  by (simp add: assign_key_def reads_prototype_def obj_get_def own_def)

text \<open>
  Claim C7, amended: for every tree, every non-empty key path in which the key
  \<open>__proto__\<close> does not occur (no call in the code passes it) and every value, \<open>setDeep\<close>
  binds the value at the end of the path; every key path that leaves the given one
  (neither is a prefix of the other) reads what it read before; and a traversed key (one
  with more of the path after it) whose value was an object keeps that object, updated
  along the rest of the path, while one whose value was missing or no object (an array,
  \<open>null\<close>, a string, a number) is bound to a fresh object holding the rest of the path.
  Nothing is raised.
\<close>

theorem setDeep_sets_path_keeps_rest:
  assumes "keys \<noteq> []" and "''__proto__'' \<notin> set keys"
  shows "setDeep obj keys v = Bound (own (setDeep obj keys v))
    \<and> getDeep (JObj (own (setDeep obj keys v))) keys = Some v
    \<and> (\<forall>q. \<not> prefix q keys \<and> \<not> prefix keys q \<longrightarrow>
          getDeep (JObj (own (setDeep obj keys v))) q = getDeep (JObj obj) q)
    \<and> (\<forall>pre k rest. keys = pre @ k # rest \<and> rest \<noteq> [] \<longrightarrow>
          getDeep (JObj (own (setDeep obj keys v))) (pre @ [k])
            = (case getDeep (JObj obj) (pre @ [k]) of
                 Some (JObj child) \<Rightarrow> Some (JObj (own (setDeep child rest v)))
               | _ \<Rightarrow> Some (JObj (own (setDeep [] rest v)))))"
proof (intro conjI allI impI)
  from assms show "setDeep obj keys v = Bound (own (setDeep obj keys v))"
    by (rule setDeep_Bound)
  from assms show "getDeep (JObj (own (setDeep obj keys v))) keys = Some v"
    by (rule setDeep_binds)
next
  fix q
  assume "\<not> prefix q keys \<and> \<not> prefix keys q"
  with assms(2) show "getDeep (JObj (own (setDeep obj keys v))) q = getDeep (JObj obj) q"
    by (simp add: setDeep_frame)
next
  fix pre k rest
  assume split: "keys = pre @ k # rest \<and> rest \<noteq> []"
  with assms(2) have "getDeep (JObj (own (setDeep obj keys v))) (pre @ [k])
      = Some (JObj (own (setDeep (next_node (getDeep (JObj obj) (pre @ [k]))) rest v)))"
    using setDeep_traversed[of rest pre k obj v] by simp
  then show "getDeep (JObj (own (setDeep obj keys v))) (pre @ [k])
      = (case getDeep (JObj obj) (pre @ [k]) of
           Some (JObj child) \<Rightarrow> Some (JObj (own (setDeep child rest v)))
         | _ \<Rightarrow> Some (JObj (own (setDeep [] rest v))))"
    by (simp add: next_node_def split: option.splits json.splits)
qed

theorem setDeep_sets_path_keeps_rest_witness:
  "[''profile'', ''name''] \<noteq> []
   \<and> ''__proto__'' \<notin> set [''profile'', ''name'']
   \<and> setDeep [(''profile'', JArr [JNum 1]), (''browser'', JObj [(''enabled'', JBool True)])]
        [''profile'', ''name''] (JStr ''clawd'')
      = Bound [(''profile'', JObj [(''name'', JStr ''clawd'')]),
               (''browser'', JObj [(''enabled'', JBool True)])]
   \<and> getDeep (JObj (own (setDeep
        [(''profile'', JArr [JNum 1]), (''browser'', JObj [(''enabled'', JBool True)])]
        [''profile'', ''name''] (JStr ''clawd'')))) [''profile'', ''name'']
      = Some (JStr ''clawd'')
   \<and> getDeep (JObj (own (setDeep
        [(''profile'', JArr [JNum 1]), (''browser'', JObj [(''enabled'', JBool True)])]
        [''profile'', ''name''] (JStr ''clawd'')))) [''browser'', ''enabled'']
      = Some (JBool True)
   \<and> getDeep (JObj (own (setDeep
        [(''profile'', JArr [JNum 1]), (''browser'', JObj [(''enabled'', JBool True)])]
        [''profile'', ''name''] (JStr ''clawd'')))) [''profile'']
      = Some (JObj [(''name'', JStr ''clawd'')])"
proof -
  let ?obj = "[(''profile'', JArr [JNum 1]), (''browser'', JObj [(''enabled'', JBool True)])]"
  let ?keys = "[''profile'', ''name'']"
  let ?new = "own (setDeep ?obj ?keys (JStr ''clawd''))"
  have ne: "?keys \<noteq> []" by simp
  have np: "''__proto__'' \<notin> set ?keys" by simp
  note t = setDeep_sets_path_keeps_rest [OF ne np, of ?obj "JStr ''clawd''"]
  have eval: "?new = [(''profile'', JObj [(''name'', JStr ''clawd'')]),
         (''browser'', JObj [(''enabled'', JBool True)])]"
    by (simp add: obj_get_def next_node_def assign_key_def reads_prototype_def own_def)
  from t have "setDeep ?obj ?keys (JStr ''clawd'') = Bound ?new" by (rule conjunct1)
  then have whole: "setDeep ?obj ?keys (JStr ''clawd'')
      = Bound [(''profile'', JObj [(''name'', JStr ''clawd'')]),
               (''browser'', JObj [(''enabled'', JBool True)])]"
    by (simp only: eval)
  from t have bound: "getDeep (JObj ?new) ?keys = Some (JStr ''clawd'')"
    by blast
  have apart: "\<not> prefix [''browser'', ''enabled''] ?keys \<and> \<not> prefix ?keys [''browser'', ''enabled'']"
    by simp
  from t apart have "getDeep (JObj ?new) [''browser'', ''enabled'']
      = getDeep (JObj ?obj) [''browser'', ''enabled'']"
    by blast
  then have kept: "getDeep (JObj ?new) [''browser'', ''enabled''] = Some (JBool True)"
    by (simp add: obj_get_def del: setDeep.simps)
  have split: "?keys = [] @ ''profile'' # [''name''] \<and> [''name''] \<noteq> []"
    by simp
  from t split have "getDeep (JObj ?new) ([] @ [''profile''])
      = (case getDeep (JObj ?obj) ([] @ [''profile'']) of
           Some (JObj child) \<Rightarrow> Some (JObj (own (setDeep child [''name''] (JStr ''clawd''))))
         | _ \<Rightarrow> Some (JObj (own (setDeep [] [''name''] (JStr ''clawd'')))))"
    by blast
  then have fresh: "getDeep (JObj ?new) [''profile'']
      = Some (JObj [(''name'', JStr ''clawd'')])"
    by (simp only: eval) (simp add: obj_get_def assign_key_def reads_prototype_def own_def)
  from ne np whole bound kept fresh show ?thesis by blast
qed

section \<open>The executable locator: what holds\<close>

lemma first_existing_find:
  "first_existing fs cs = List.find (\<lambda>c. exists_js fs (path c)) cs"
  by (induction cs) auto

lemma candidates_kinds:
  "map kind (candidates nd) = [canary, canary, chromium, chromium, chrome, chrome]"
  by (simp add: candidates_def)

lemma stable_system_only:
  assumes "\<forall>c \<in> set (candidates nd). exists_js fs (path c) \<longrightarrow> kind c = chrome"
    and "exists_js fs stable_system"
  shows "findChromeExecutableMac nd fs = Some \<lparr>kind = chrome, path = stable_system\<rparr>"
  using assms by (simp add: findChromeExecutableMac_def candidates_def stable_system_def)

lemma stable_user_only:
  assumes "\<forall>c \<in> set (candidates nd). exists_js fs (path c) \<longrightarrow> kind c = chrome"
    and "\<not> exists_js fs stable_system" and "exists_js fs (stable_user nd)"
  shows "findChromeExecutableMac nd fs = Some \<lparr>kind = chrome, path = stable_user nd\<rparr>"
  using assms
  by (simp add: findChromeExecutableMac_def candidates_def stable_system_def stable_user_def)

text \<open>
  Claim C8: for every file system state, \<open>findChromeExecutableMac\<close> returns the first
  candidate whose path exists, out of a fixed list ordered canary, then the open-source
  build (\<open>chromium\<close>), then the stable release (\<open>chrome\<close>, the kind the specification calls
  stable), each at the system-wide location before the per-user one; when of all
  candidates only a stable-release path exists, it returns that path with the kind of the
  stable release; when no candidate exists it returns \<open>null\<close>, and a raise of the
  existence check counts as absence.
\<close>

theorem findChromeExecutableMac_first_existing:
  "map kind (candidates nd) = [canary, canary, chromium, chromium, chrome, chrome]
   \<and> map path (candidates nd) =
       [''/Applications/Google Chrome Canary.app/Contents/MacOS/Google Chrome Canary'',
        path_join nd [os_homedir nd,
          ''Applications/Google Chrome Canary.app/Contents/MacOS/Google Chrome Canary''],
        ''/Applications/Chromium.app/Contents/MacOS/Chromium'',
        path_join nd [os_homedir nd, ''Applications/Chromium.app/Contents/MacOS/Chromium''],
        stable_system,
        stable_user nd]
   \<and> (findChromeExecutableMac nd fs = None
        \<longleftrightarrow> (\<forall>c \<in> set (candidates nd). \<not> exists_js fs (path c)))
   \<and> (\<forall>c. findChromeExecutableMac nd fs = Some c
        \<longleftrightarrow> (\<exists>i < length (candidates nd).
               exists_js fs (path (candidates nd ! i)) \<and> c = candidates nd ! i
               \<and> (\<forall>j < i. \<not> exists_js fs (path (candidates nd ! j)))))
   \<and> ((\<forall>c \<in> set (candidates nd). exists_js fs (path c) \<longrightarrow> kind c = chrome)
        \<and> exists_js fs stable_system
       \<longrightarrow> findChromeExecutableMac nd fs = Some \<lparr>kind = chrome, path = stable_system\<rparr>)
   \<and> ((\<forall>c \<in> set (candidates nd). exists_js fs (path c) \<longrightarrow> kind c = chrome)
        \<and> \<not> exists_js fs stable_system \<and> exists_js fs (stable_user nd)
       \<longrightarrow> findChromeExecutableMac nd fs = Some \<lparr>kind = chrome, path = stable_user nd\<rparr>)
   \<and> (\<forall>p. existsSync fs p = Inl e \<longrightarrow> \<not> exists_js fs p)"
proof (intro conjI)
  show "map kind (candidates nd) = [canary, canary, chromium, chromium, chrome, chrome]"
    by (rule candidates_kinds)
  show "map path (candidates nd) =
       [''/Applications/Google Chrome Canary.app/Contents/MacOS/Google Chrome Canary'',
        path_join nd [os_homedir nd,
          ''Applications/Google Chrome Canary.app/Contents/MacOS/Google Chrome Canary''],
        ''/Applications/Chromium.app/Contents/MacOS/Chromium'',
        path_join nd [os_homedir nd, ''Applications/Chromium.app/Contents/MacOS/Chromium''],
        stable_system,
        stable_user nd]"
    by (simp add: candidates_def stable_system_def stable_user_def)
  show "findChromeExecutableMac nd fs = None
        \<longleftrightarrow> (\<forall>c \<in> set (candidates nd). \<not> exists_js fs (path c))"
    by (auto simp: findChromeExecutableMac_def first_existing_find find_None_iff)
  show "\<forall>c. findChromeExecutableMac nd fs = Some c
        \<longleftrightarrow> (\<exists>i < length (candidates nd).
               exists_js fs (path (candidates nd ! i)) \<and> c = candidates nd ! i
               \<and> (\<forall>j < i. \<not> exists_js fs (path (candidates nd ! j))))"
    by (simp add: findChromeExecutableMac_def first_existing_find find_Some_iff)
  show "(\<forall>c \<in> set (candidates nd). exists_js fs (path c) \<longrightarrow> kind c = chrome)
        \<and> exists_js fs stable_system
       \<longrightarrow> findChromeExecutableMac nd fs = Some \<lparr>kind = chrome, path = stable_system\<rparr>"
    using stable_system_only by blast
  show "(\<forall>c \<in> set (candidates nd). exists_js fs (path c) \<longrightarrow> kind c = chrome)
        \<and> \<not> exists_js fs stable_system \<and> exists_js fs (stable_user nd)
       \<longrightarrow> findChromeExecutableMac nd fs = Some \<lparr>kind = chrome, path = stable_user nd\<rparr>"
    using stable_user_only by blast
  show "\<forall>p. existsSync fs p = Inl e \<longrightarrow> \<not> exists_js fs p"
    by (simp add: exists_js_def)
qed

lemma fs_stable_only_chrome:
  "\<forall>c \<in> set (candidates example_node). exists_js fs_stable_only (path c) \<longrightarrow> kind c = chrome"
  by (simp add: candidates_def example_node_def fs_stable_only_def exists_js_def existsSync_def
        stable_system_def)

lemma fs_stable_only_exists: "exists_js fs_stable_only stable_system"
  by (simp add: fs_stable_only_def exists_js_def existsSync_def)

lemma fs_empty_nothing: "\<forall>c \<in> set (candidates example_node). \<not> exists_js fs_empty (path c)"
  by (simp add: fs_empty_def exists_js_def existsSync_def)

theorem findChromeExecutableMac_first_existing_witness:
  "exists_js fs_stable_only stable_system
   \<and> findChromeExecutableMac example_node fs_stable_only
       = Some \<lparr>kind = chrome, path = stable_system\<rparr>
   \<and> findChromeExecutableMac example_node fs_empty = None"
proof -
  note t = findChromeExecutableMac_first_existing [of example_node fs_stable_only]
  from t fs_stable_only_chrome fs_stable_only_exists
  have found: "findChromeExecutableMac example_node fs_stable_only
      = Some \<lparr>kind = chrome, path = stable_system\<rparr>"
    by blast
  note u = findChromeExecutableMac_first_existing [of example_node fs_empty]
  from u fs_empty_nothing have none: "findChromeExecutableMac example_node fs_empty = None"
    by blast
  from fs_stable_only_exists found none show ?thesis by blast
qed


section \<open>The profile decoration: what holds\<close>

lemma safeWriteJson_isl:
  "isl (safeWriteJson nd fs p d) \<longleftrightarrow> write_raises nd fs p"
  by (auto simp: safeWriteJson_def mkdirSync_def writeFileSync_def write_raises_def
      split: option.splits)

lemma safeWriteJson_raises:
  "safeWriteJson nd fs p d = Inr fs' \<Longrightarrow> raises fs' = raises fs"
  by (auto simp: safeWriteJson_def mkdirSync_def writeFileSync_def split: option.splits)

lemma write_raises_cong:
  "raises fs' = raises fs \<Longrightarrow> write_raises nd fs' p = write_raises nd fs p"
  by (simp add: write_raises_def)

lemma decorateClawdProfile_isl:
  "isl (decorateClawdProfile nd name t0 fs dir color)
     \<longleftrightarrow> write_raises nd fs (localStatePath nd dir)
         \<or> write_raises nd fs (preferencesPath nd dir)"
proof -
  define ls where "ls = path_join nd [dir, ''Local State'']"
  define pf where "pf = path_join nd [dir, ''Default'', ''Preferences'']"
  define col where
    "col = JStr (toUpperCase nd
       (case color of None \<Rightarrow> DEFAULT_CLAWD_BROWSER_COLOR | Some c \<Rightarrow> c))"
  have "\<exists>d1. decorateClawdProfile nd name t0 fs dir color =
      (case safeWriteJson nd fs ls d1 of
         Inl e \<Rightarrow> Inl (e, fs)
       | Inr fs1 \<Rightarrow>
          (let prefs0 = orEmpty (safeReadJson fs1 pf);
               prefs1 = setDeep_on prefs0 [''profile'', ''name''] (JStr name);
               prefs2 = setDeep_on prefs1 [''profile'', ''profile_color''] col;
               prefs3 = setDeep_on prefs2 [''profile'', ''user_color''] col
           in case safeWriteJson nd fs1 pf prefs3 of
                Inl e \<Rightarrow> Inl (e, fs1)
              | Inr fs2 \<Rightarrow>
                 (case writeFileSync fs2 (decoratedMarkerPath nd dir) (Json (JNum t0)) of
                    Inl _ \<Rightarrow> Inr fs2
                  | Inr fs3 \<Rightarrow> Inr fs3)))"
    unfolding decorateClawdProfile_def Let_def ls_def pf_def col_def
    by (rule exI, rule refl)
  then obtain d1 where d1: "decorateClawdProfile nd name t0 fs dir color =
      (case safeWriteJson nd fs ls d1 of
         Inl e \<Rightarrow> Inl (e, fs)
       | Inr fs1 \<Rightarrow>
          (let prefs0 = orEmpty (safeReadJson fs1 pf);
               prefs1 = setDeep_on prefs0 [''profile'', ''name''] (JStr name);
               prefs2 = setDeep_on prefs1 [''profile'', ''profile_color''] col;
               prefs3 = setDeep_on prefs2 [''profile'', ''user_color''] col
           in case safeWriteJson nd fs1 pf prefs3 of
                Inl e \<Rightarrow> Inl (e, fs1)
              | Inr fs2 \<Rightarrow>
                 (case writeFileSync fs2 (decoratedMarkerPath nd dir) (Json (JNum t0)) of
                    Inl _ \<Rightarrow> Inr fs2
                  | Inr fs3 \<Rightarrow> Inr fs3)))"
    by blast
  show ?thesis
  proof (cases "safeWriteJson nd fs ls d1")
    case (Inl e)
    then have "write_raises nd fs ls"
      using safeWriteJson_isl[of nd fs ls d1] by simp
    with Inl show ?thesis by (simp add: d1 localStatePath_def ls_def)
  next
    case (Inr fs1)
    then have first: "\<not> write_raises nd fs ls"
      using safeWriteJson_isl[of nd fs ls d1] by simp
    from Inr have same: "raises fs1 = raises fs" by (rule safeWriteJson_raises)
    obtain d2 where d2: "decorateClawdProfile nd name t0 fs dir color =
        (case safeWriteJson nd fs1 pf d2 of
           Inl e \<Rightarrow> Inl (e, fs1)
         | Inr fs2 \<Rightarrow>
            (case writeFileSync fs2 (decoratedMarkerPath nd dir) (Json (JNum t0)) of
               Inl _ \<Rightarrow> Inr fs2
             | Inr fs3 \<Rightarrow> Inr fs3))"
      by (simp add: d1 Inr Let_def)
    show ?thesis
    proof (cases "safeWriteJson nd fs1 pf d2")
      case (Inl e)
      then have "write_raises nd fs1 pf"
        using safeWriteJson_isl[of nd fs1 pf d2] by simp
      then have "write_raises nd fs pf"
        using write_raises_cong[OF same] by simp
      with Inl show ?thesis by (simp add: d2 preferencesPath_def pf_def)
    next
      case (Inr fs2)
      then have "\<not> write_raises nd fs1 pf"
        using safeWriteJson_isl[of nd fs1 pf d2] by simp
      then have "\<not> write_raises nd fs pf"
        using write_raises_cong[OF same] by simp
      with Inr first show ?thesis
        by (simp add: d2 preferencesPath_def localStatePath_def pf_def ls_def
              split: sum.splits)
    qed
  qed
qed

text \<open>
  Claim C2, as stated: for every profile directory and every file system state,
  \<open>decorateClawdProfile\<close> returns normally, every I/O failure being swallowed. It does
  not: when \<open>Local State\<close> cannot be written, \<open>fs.writeFileSync\<close> raises inside
  \<open>safeWriteJson\<close>, which has no \<open>try\<close>, and the error leaves \<open>decorateClawdProfile\<close>.
\<close>

theorem decorateClawdProfile_write_error_counterexample:
  "decorateClawdProfile example_node ''clawd'' 0 fs_no_write ''/d'' None
     = Inl (Error (JStr ''EACCES''), fs_no_write)"
  by (simp add: decorateClawdProfile_def Let_def safeWriteJson_def mkdirSync_def
        writeFileSync_def example_node_def fs_no_write_def)

text \<open>
  Claim C2, amended: for every profile directory and every file system state,
  \<open>decorateClawdProfile\<close> swallows every failure of checking, reading or parsing the two
  preference files and of writing the marker; it raises exactly when creating the
  directory of, or writing, one of the two preference files raises. Its caller in
  \<open>launchClawdChrome\<close> catches that error, logs a warning and goes on: the step of the
  launch returns normally in every file system state.
\<close>

theorem decorateClawdProfile_raises_on_write_only:
  "(isl (decorateClawdProfile nd name t0 fs dir color)
      \<longleftrightarrow> write_raises nd fs (localStatePath nd dir)
          \<or> write_raises nd fs (preferencesPath nd dir))
   \<and> (fst (launch_decorate nd name t0 fs dir rc) = LogInfo
      \<longleftrightarrow> \<not> isl (decorateClawdProfile nd name t0 fs dir (Some rc)))
   \<and> ((\<exists>e. fst (launch_decorate nd name t0 fs dir rc) = LogWarn e)
      \<longleftrightarrow> isl (decorateClawdProfile nd name t0 fs dir (Some rc)))"
proof (intro conjI)
  show "isl (decorateClawdProfile nd name t0 fs dir color)
      \<longleftrightarrow> write_raises nd fs (localStatePath nd dir)
          \<or> write_raises nd fs (preferencesPath nd dir)"
    by (rule decorateClawdProfile_isl)
  show "fst (launch_decorate nd name t0 fs dir rc) = LogInfo
      \<longleftrightarrow> \<not> isl (decorateClawdProfile nd name t0 fs dir (Some rc))"
    by (cases "decorateClawdProfile nd name t0 fs dir (Some rc)")
       (auto simp: launch_decorate_def)
  show "(\<exists>e. fst (launch_decorate nd name t0 fs dir rc) = LogWarn e)
      \<longleftrightarrow> isl (decorateClawdProfile nd name t0 fs dir (Some rc))"
    by (cases "decorateClawdProfile nd name t0 fs dir (Some rc)")
       (auto simp: launch_decorate_def)
qed

lemma fs_no_read_writes:
  "\<not> write_raises example_node fs_no_read (localStatePath example_node ''/d'')"
  "\<not> write_raises example_node fs_no_read (preferencesPath example_node ''/d'')"
  by (simp_all add: write_raises_def example_node_def fs_no_read_def localStatePath_def
        preferencesPath_def)

lemma fs_no_write_raises:
  "write_raises example_node fs_no_write (localStatePath example_node ''/d'')"
  by (simp add: write_raises_def example_node_def fs_no_write_def localStatePath_def)

theorem decorateClawdProfile_raises_on_write_only_witness:
  "raises fs_no_read ReadFileSync (localStatePath example_node ''/d'') = Some (Error (JStr ''EIO''))
   \<and> \<not> isl (decorateClawdProfile example_node ''clawd'' 0 fs_no_read ''/d'' None)
   \<and> fst (launch_decorate example_node ''clawd'' 0 fs_no_read ''/d'' ''#FF4500'') = LogInfo
   \<and> write_raises example_node fs_no_write (localStatePath example_node ''/d'')
   \<and> isl (decorateClawdProfile example_node ''clawd'' 0 fs_no_write ''/d'' None)
   \<and> (\<exists>e. fst (launch_decorate example_node ''clawd'' 0 fs_no_write ''/d'' ''#FF4500'')
            = LogWarn e)"
proof -
  have reads: "raises fs_no_read ReadFileSync (localStatePath example_node ''/d'')
      = Some (Error (JStr ''EIO''))"
    by (simp add: fs_no_read_def)
  from decorateClawdProfile_raises_on_write_only
         [of example_node "''clawd''" 0 fs_no_read "''/d''" None "''#FF4500''"]
       fs_no_read_writes
  have a: "\<not> isl (decorateClawdProfile example_node ''clawd'' 0 fs_no_read ''/d'' None)"
    by blast
  from decorateClawdProfile_raises_on_write_only
         [of example_node "''clawd''" 0 fs_no_read "''/d''" "Some ''#FF4500''" "''#FF4500''"]
       fs_no_read_writes
  have b: "fst (launch_decorate example_node ''clawd'' 0 fs_no_read ''/d'' ''#FF4500'') = LogInfo"
    by blast
  from decorateClawdProfile_raises_on_write_only
         [of example_node "''clawd''" 0 fs_no_write "''/d''" None "''#FF4500''"]
       fs_no_write_raises
  have c: "isl (decorateClawdProfile example_node ''clawd'' 0 fs_no_write ''/d'' None)"
    by blast
  from decorateClawdProfile_raises_on_write_only
         [of example_node "''clawd''" 0 fs_no_write "''/d''" "Some ''#FF4500''" "''#FF4500''"]
       fs_no_write_raises
  have d: "\<exists>e. fst (launch_decorate example_node ''clawd'' 0 fs_no_write ''/d'' ''#FF4500'')
      = LogWarn e"
    by blast
  from reads a b fs_no_write_raises c d show ?thesis by blast
qed

section \<open>Stopping the browser: what the code does\<close>

lemma stopClawdChrome_delivered:
  assumes "\<not> killed (proc running)" and "sigterm w = Delivered"
    and "ticks w = t # ts" and "now t - start_time w < timeoutMs"
    and "exitCode t = None \<or> exitCode t = Some 0"
  shows "stopClawdChrome running timeoutMs w = Some \<lparr>signals = [SIGTERM, SIGKILL], probes = 0\<rparr>"
  using assms by (auto simp: stopClawdChrome_def)

text \<open>
  Claim C1: \<open>stopClawdChrome\<close> sends \<open>SIGTERM\<close>, then polls until the debug endpoint stops
  answering, returns without a \<open>SIGKILL\<close> whenever the endpoint becomes unreachable within
  the timeout, and sends \<open>SIGKILL\<close> only if the deadline passes with the endpoint still
  reachable. The code does not do this. Once \<open>SIGTERM\<close> is delivered \<open>proc.killed\<close> is
  \<open>true\<close>, and \<open>proc.exitCode\<close> is still \<open>null\<close>, so the test
  \<open>!proc.exitCode && proc.killed\<close> leaves the loop in its first round: \<open>SIGKILL\<close> follows
  at once, before any probe and long before the deadline, here with an endpoint that
  answers no more and a timeout of 2500 ms.
\<close>

theorem stopClawdChrome_kills_before_polling:
  "stopClawdChrome running_example 2500 world_example
     = Some \<lparr>signals = [SIGTERM, SIGKILL], probes = 0\<rparr>"
  by (simp add: stopClawdChrome_def running_example_def world_example_def)


section \<open>The protocol client: the parts\<close>

lemma send_fields:
  "fst (send m ps c) = SendPromise (nextId c)"
  "nextId (snd (send m ps c)) = nextId c + 1"
  "sent (snd (send m ps c)) = sent c @ [\<lparr>msg_id = nextId c, msg_method = m, msg_params = ps\<rparr>]"
  "pending (snd (send m ps c)) = map_set (pending c) (nextId c) (SendPromise (nextId c))"
  "settled (snd (send m ps c)) = settled c"
  "ws_closed (snd (send m ps c)) = ws_closed c"
  "stage (snd (send m ps c)) = stage c"
  by (simp_all add: send_def Let_def)

lemma await_send_fields:
  "nextId (await_send m ps k c) = nextId c + 1"
  "sent (await_send m ps k c) = sent c @ [\<lparr>msg_id = nextId c, msg_method = m, msg_params = ps\<rparr>]"
  "pending (await_send m ps k c) = map_set (pending c) (nextId c) (SendPromise (nextId c))"
  "settled (await_send m ps k c) = settled c"
  "ws_closed (await_send m ps k c) = ws_closed c"
  "stage (await_send m ps k c) = k (SendPromise (nextId c))"
  by (simp_all add: await_send_def send_def Let_def)

lemma closeWithError_fields:
  "nextId (closeWithError e c) = nextId c"
  "sent (closeWithError e c) = sent c"
  "pending (closeWithError e c) = []"
  "settled (closeWithError e c) = settled c @ map (\<lambda>(i, p). (p, Rejected e)) (pending c)"
  "ws_closed (closeWithError e c) = True"
  "stage (closeWithError e c) = stage c"
  by (simp_all add: closeWithError_def)

lemma settle_fields:
  "nextId (settle p out c) = nextId c"
  "sent (settle p out c) = sent c"
  "pending (settle p out c) = pending c"
  "settled (settle p out c) = settled c @ [(p, out)]"
  "ws_closed (settle p out c) = ws_closed c"
  "stage (settle p out c) = stage c"
  by (simp_all add: settle_def)

lemma onMessage_eq:
  "onMessage data c =
     (case frame_id data of
        None \<Rightarrow> c
      | Some i \<Rightarrow>
         (case map_of (pending c) i of
            None \<Rightarrow> c
          | Some p \<Rightarrow> c\<lparr>pending := map_delete (pending c) i,
                         settled := settled c @ [(p, frame_outcome (the data))]\<rparr>))"
  by (auto simp: onMessage_def frame_id_def get_prop_def settle_def
      split: option.splits json.splits)

lemma fire_keeps:
  "sent (fire ev c) = sent c" "nextId (fire ev c) = nextId c" "stage (fire ev c) = stage c"
  by (cases ev; simp add: settle_fields onClose_def closeWithError_fields onMessage_eq
        split: option.splits)+

lemma map_of_snoc:
  "map_of (xs @ [(k, v)]) q
     = (case map_of xs q of Some x \<Rightarrow> Some x | None \<Rightarrow> if q = k then Some v else None)"
  by (induction xs) (auto split: option.splits)

lemma resume_shape:
  "(sent (resume nd os c) = sent c \<and> nextId (resume nd os c) = nextId c)
   \<or> (\<exists>m ps k. resume nd os c = await_send m ps k c)"
  by (auto simp: resume_def closeWithError_fields split: stage.splits option.splits outcome.splits)

subsection \<open>Ids\<close>

lemma ids_send: "ids_in_order c \<Longrightarrow> ids_in_order (snd (send m ps c))"
  by (simp add: ids_in_order_def send_fields)

lemma ids_await_send: "ids_in_order c \<Longrightarrow> ids_in_order (await_send m ps k c)"
  by (simp add: ids_in_order_def await_send_fields)

lemma ids_resume: "ids_in_order c \<Longrightarrow> ids_in_order (resume nd os c)"
proof -
  assume a: "ids_in_order c"
  from resume_shape[of nd os c] show ?thesis
  proof
    assume "sent (resume nd os c) = sent c \<and> nextId (resume nd os c) = nextId c"
    with a show ?thesis by (simp add: ids_in_order_def)
  next
    assume "\<exists>m ps k. resume nd os c = await_send m ps k c"
    then obtain m ps k where "resume nd os c = await_send m ps k c" by blast
    with a show ?thesis by (simp add: ids_await_send)
  qed
qed

lemma ids_fire: "ids_in_order c \<Longrightarrow> ids_in_order (fire ev c)"
  by (simp add: ids_in_order_def fire_keeps)

lemma ids_turn: "ids_in_order c \<Longrightarrow> ids_in_order (take_turn nd os t c)"
  by (cases t) (simp_all add: ids_resume ids_fire del: fire.simps)

lemma ids_run: "ids_in_order c \<Longrightarrow> ids_in_order (run nd os c ts)"
  by (induction ts arbitrary: c) (simp_all add: ids_turn del: take_turn.simps)

lemma onMessage_keeps:
  "sent (onMessage data c) = sent c" "nextId (onMessage data c) = nextId c"
  "stage (onMessage data c) = stage c"
  by (simp_all add: onMessage_eq split: option.splits)

lemma ids_conn_apply: "ids_in_order c \<Longrightarrow> ids_in_order (conn_apply x c)"
proof (cases x)
  case (DoSend m ps)
  assume "ids_in_order c"
  with DoSend show ?thesis by (simp add: ids_send)
next
  case (GotMessage d)
  assume "ids_in_order c"
  with GotMessage show ?thesis by (simp add: ids_in_order_def onMessage_keeps)
next
  case GotClose
  assume "ids_in_order c"
  with GotClose show ?thesis by (simp add: ids_in_order_def onClose_def closeWithError_fields)
qed

lemma ids_conn_run: "ids_in_order c \<Longrightarrow> ids_in_order (conn_run c xs)"
  by (induction xs arbitrary: c) (simp_all add: ids_conn_apply)

lemma ids_start: "ids_in_order start"
  by (simp add: ids_in_order_def start_def)

subsection \<open>The order of the commands\<close>

lemma on_script_fire: "on_script os (fire ev c) = on_script os c"
  by (simp add: on_script_def fire_keeps)

lemma resume_stage_sent:
  "stage c = AwaitOpen \<Longrightarrow>
     (stage (resume nd os c) = AwaitOpen \<and> sent (resume nd os c) = sent c)
   \<or> (\<exists>e. stage (resume nd os c) = Threw e \<and> sent (resume nd os c) = sent c)
   \<or> (\<exists>p ps. stage (resume nd os c) = AwaitEnable p
          \<and> map msg_method (sent (resume nd os c)) = map msg_method (sent c) @ [''Page.enable''])"
  by (auto simp: resume_def await_send_fields split: option.splits outcome.splits)

lemma resume_enable:
  "stage c = AwaitEnable q \<Longrightarrow>
     (stage (resume nd os c) = AwaitEnable q \<and> sent (resume nd os c) = sent c)
   \<or> (\<exists>e. stage (resume nd os c) = Threw e \<and> sent (resume nd os c) = sent c)
   \<or> (fullPage os \<and> (\<exists>p. stage (resume nd os c) = AwaitMetrics p)
          \<and> map msg_method (sent (resume nd os c))
               = map msg_method (sent c) @ [''Page.getLayoutMetrics''])
   \<or> (\<not> fullPage os \<and> (\<exists>p. stage (resume nd os c) = AwaitCapture p)
          \<and> map msg_method (sent (resume nd os c))
               = map msg_method (sent c) @ [''Page.captureScreenshot''])"
  by (auto simp: resume_def await_send_fields split: option.splits outcome.splits)

lemma resume_metrics:
  "stage c = AwaitMetrics q \<Longrightarrow>
     (stage (resume nd os c) = AwaitMetrics q \<and> sent (resume nd os c) = sent c)
   \<or> (\<exists>e. stage (resume nd os c) = Threw e \<and> sent (resume nd os c) = sent c)
   \<or> ((\<exists>p. stage (resume nd os c) = AwaitCapture p)
          \<and> map msg_method (sent (resume nd os c))
               = map msg_method (sent c) @ [''Page.captureScreenshot''])"
  by (auto simp: resume_def await_send_fields split: option.splits outcome.splits)

lemma resume_capture:
  "stage c = AwaitCapture q \<Longrightarrow>
     sent (resume nd os c) = sent c
     \<and> (stage (resume nd os c) = AwaitCapture q
        \<or> (\<exists>e. stage (resume nd os c) = Threw e)
        \<or> (\<exists>b. stage (resume nd os c) = Returned b))"
  by (auto simp: resume_def closeWithError_fields split: option.splits outcome.splits sum.splits)

lemma resume_done:
  "stage c = Returned b \<Longrightarrow> resume nd os c = c"
  "stage c = Threw e \<Longrightarrow> resume nd os c = c"
  by (simp_all add: resume_def)

lemma on_script_resume:
  assumes "on_script os c"
  shows "on_script os (resume nd os c)"
proof (cases "stage c")
  case AwaitOpen
  with assms have ms: "map msg_method (sent c) = []" by (simp add: on_script_def)
  from resume_stage_sent[OF AwaitOpen, of nd os] ms AwaitOpen show ?thesis
    by (auto simp: on_script_def script_def)
next
  case (AwaitEnable q)
  with assms have ms: "map msg_method (sent c) = [''Page.enable'']" by (simp add: on_script_def)
  from resume_enable[OF AwaitEnable, of nd os] ms AwaitEnable show ?thesis
    by (auto simp: on_script_def script_def)
next
  case (AwaitMetrics q)
  with assms have ms: "map msg_method (sent c) = [''Page.enable'', ''Page.getLayoutMetrics'']"
    and fp: "fullPage os" by (simp_all add: on_script_def)
  from resume_metrics[OF AwaitMetrics, of nd os] ms fp AwaitMetrics show ?thesis
    by (auto simp: on_script_def script_def)
next
  case (AwaitCapture q)
  with assms have ms: "map msg_method (sent c) = script os" by (simp add: on_script_def)
  from resume_capture[OF AwaitCapture, of nd os] ms AwaitCapture show ?thesis
    by (auto simp: on_script_def)
next
  case (Returned b)
  with assms show ?thesis by (simp add: resume_done)
next
  case (Threw e)
  with assms show ?thesis by (simp add: resume_done)
qed

lemma on_script_turn: "on_script os c \<Longrightarrow> on_script os (take_turn nd os t c)"
  by (cases t) (simp_all add: on_script_resume on_script_fire del: fire.simps)

lemma on_script_run: "on_script os c \<Longrightarrow> on_script os (run nd os c ts)"
  by (induction ts arbitrary: c) (simp_all add: on_script_turn del: take_turn.simps)

lemma on_script_start: "on_script os start"
  by (simp add: on_script_def start_def)

lemma on_script_prefix: "on_script os c \<Longrightarrow> prefix (map msg_method (sent c)) (script os)"
  by (cases "stage c") (simp_all add: on_script_def script_def)

subsection \<open>One command at a time\<close>

lemma settled_below_append:
  "settled_below n (xs @ ys) = (settled_below n xs \<and> settled_below n ys)"
  by (simp add: settled_below_def)

lemma settled_below_mono: "settled_below n xs \<Longrightarrow> n \<le> m \<Longrightarrow> settled_below m xs"
  by (induction xs) (auto simp: settled_below_def split: promise.splits)

lemma settled_below_fresh: "settled_below n xs \<Longrightarrow> map_of xs (SendPromise n) = None"
  by (induction xs) (auto simp: settled_below_def split: promise.splits)

lemma waits_iff:
  "waits c p \<longleftrightarrow>
     (\<exists>i. p = SendPromise i \<and> i < nextId c
        \<and> ((pending c = [(i, p)] \<and> map_of (settled c) p = None)
           \<or> (pending c = [] \<and> map_of (settled c) p \<noteq> None)))"
  by (cases p) (simp_all add: waits_def)

lemma pending_shape:
  assumes "in_step c"
  shows "pending c = []
     \<or> (\<exists>i. pending c = [(i, SendPromise i)] \<and> i < nextId c
            \<and> map_of (settled c) (SendPromise i) = None
            \<and> (stage c = AwaitEnable (SendPromise i) \<or> stage c = AwaitMetrics (SendPromise i)
                \<or> stage c = AwaitCapture (SendPromise i)))"
  using assms by (cases "stage c") (auto simp: in_step_def waits_iff)

lemma in_step_open:
  assumes "in_step c"
  shows "in_step (settle OpenPromise out c)"
proof -
  have w: "waits (settle OpenPromise out c) p" if "waits c p" for p
    using that by (auto simp: waits_iff settle_fields map_of_snoc)
  from assms w show ?thesis
    by (cases "stage c")
       (simp_all add: in_step_def settle_fields settled_below_append settled_below_def)
qed

lemma in_step_settle_one:
  assumes "in_step c" and "pending c = [(i, q)]"
  shows "in_step (c\<lparr>pending := [], settled := settled c @ [(q, out)]\<rparr>)"
proof -
  from pending_shape[OF assms(1)] assms(2)
  have q: "q = SendPromise i" and lt: "i < nextId c"
    and un: "map_of (settled c) (SendPromise i) = None"
    and st: "stage c = AwaitEnable (SendPromise i) \<or> stage c = AwaitMetrics (SendPromise i)
                \<or> stage c = AwaitCapture (SendPromise i)"
    by auto
  let ?c' = "c\<lparr>pending := [], settled := settled c @ [(q, out)]\<rparr>"
  have w: "waits ?c' (SendPromise i)"
    using lt un q by (simp add: waits_iff map_of_snoc)
  from assms(1) have "settled_below (nextId c) (settled c)" by (simp add: in_step_def)
  with lt q have b: "settled_below (nextId ?c') (settled ?c')"
    by (simp add: settled_below_append) (simp add: settled_below_def)
  from st w b show ?thesis
    by (auto simp: in_step_def)
qed

lemma in_step_message:
  assumes "in_step c"
  shows "in_step (onMessage d c)"
proof (cases "frame_id d")
  case None
  with assms show ?thesis by (simp add: onMessage_eq)
next
  case (Some i)
  note fid = this
  show ?thesis
  proof (cases "map_of (pending c) i")
    case None
    with Some assms show ?thesis by (simp add: onMessage_eq)
  next
    case (Some p)
    with pending_shape[OF assms] have one: "pending c = [(i, p)]"
      by (auto split: if_splits)
    from fid Some one
    have "onMessage d c = c\<lparr>pending := [], settled := settled c @ [(p, frame_outcome (the d))]\<rparr>"
      by (simp add: onMessage_eq map_delete_def)
    with in_step_settle_one[OF assms one] show ?thesis by simp
  qed
qed

lemma in_step_close:
  assumes "in_step c"
  shows "in_step (closeWithError e c)"
proof -
  from pending_shape[OF assms] show ?thesis
  proof
    assume e: "pending c = []"
    then have "closeWithError e c = c\<lparr>ws_closed := True\<rparr>"
      by (simp add: closeWithError_def)
    moreover from assms have "in_step (c\<lparr>ws_closed := True\<rparr>)"
      by (cases "stage c") (simp_all add: in_step_def waits_iff)
    ultimately show ?thesis by simp
  next
    assume "\<exists>i. pending c = [(i, SendPromise i)] \<and> i < nextId c
            \<and> map_of (settled c) (SendPromise i) = None
            \<and> (stage c = AwaitEnable (SendPromise i) \<or> stage c = AwaitMetrics (SendPromise i)
                \<or> stage c = AwaitCapture (SendPromise i))"
    then obtain i where one: "pending c = [(i, SendPromise i)]" by blast
    then have eq: "closeWithError e c
        = (c\<lparr>pending := [], settled := settled c @ [(SendPromise i, Rejected e)]\<rparr>)\<lparr>ws_closed := True\<rparr>"
      by (simp add: closeWithError_def)
    have "in_step (c'\<lparr>ws_closed := True\<rparr>)" if "in_step c'" for c'
      using that by (cases "stage c'") (simp_all add: in_step_def waits_iff)
    with in_step_settle_one[OF assms one] eq show ?thesis by simp
  qed
qed

lemma in_step_fire:
  assumes "in_step c"
  shows "in_step (fire ev c)"
  using assms
  by (cases ev) (simp_all add: in_step_open in_step_message in_step_close onClose_def)

lemma in_step_await_send:
  assumes "settled_below (nextId c) (settled c)" and "pending c = []"
    and "k = AwaitEnable \<or> k = AwaitMetrics \<or> k = AwaitCapture"
  shows "in_step (await_send m ps k c)"
proof -
  let ?c' = "await_send m ps k c"
  from assms(1) have b: "settled_below (nextId ?c') (settled ?c')"
    by (simp add: await_send_fields settled_below_mono)
  from assms(1) have "map_of (settled c) (SendPromise (nextId c)) = None"
    by (rule settled_below_fresh)
  with assms(2) have w: "waits ?c' (SendPromise (nextId c))"
    by (simp add: waits_iff await_send_fields)
  from assms(3) b w show ?thesis
    by (auto simp: in_step_def await_send_fields)
qed

lemma in_step_finish:
  assumes "in_step c" and "pending c = []"
    and "s = Threw e \<or> s = Returned b"
  shows "in_step (c\<lparr>stage := s\<rparr>)" "in_step (c\<lparr>ws_closed := True, stage := s\<rparr>)"
    "in_step ((closeWithError err c)\<lparr>stage := s\<rparr>)"
  using assms by (auto simp: in_step_def closeWithError_def)

lemma waits_settled_empty: "waits c p \<Longrightarrow> map_of (settled c) p = Some out \<Longrightarrow> pending c = []"
  by (auto simp: waits_iff)

lemma in_step_resume:
  assumes "in_step c"
  shows "in_step (resume nd os c)"
proof -
  from assms have b: "settled_below (nextId c) (settled c)" by (simp add: in_step_def)
  show ?thesis
  proof (cases "stage c")
    case AwaitOpen
    with assms have e: "pending c = []" by (simp add: in_step_def)
    show ?thesis
    proof (cases "map_of (settled c) OpenPromise")
      case None
      with AwaitOpen assms show ?thesis by (simp add: resume_def)
    next
      case (Some out)
      with AwaitOpen assms e b show ?thesis
        by (cases out) (simp_all add: resume_def in_step_finish in_step_await_send)
    qed
  next
    case (AwaitEnable p)
    with assms have w: "waits c p" by (simp add: in_step_def)
    show ?thesis
    proof (cases "map_of (settled c) p")
      case None
      with AwaitEnable assms show ?thesis by (simp add: resume_def)
    next
      case (Some out)
      with w have e: "pending c = []" by (rule waits_settled_empty)
      from Some AwaitEnable assms e b show ?thesis
        by (cases out) (simp_all add: resume_def in_step_finish in_step_await_send)
    qed
  next
    case (AwaitMetrics p)
    with assms have w: "waits c p" by (simp add: in_step_def)
    show ?thesis
    proof (cases "map_of (settled c) p")
      case None
      with AwaitMetrics assms show ?thesis by (simp add: resume_def)
    next
      case (Some out)
      with w have e: "pending c = []" by (rule waits_settled_empty)
      from Some AwaitMetrics assms e b show ?thesis
        by (cases out) (simp_all add: resume_def in_step_finish in_step_await_send)
    qed
  next
    case (AwaitCapture p)
    with assms have w: "waits c p" by (simp add: in_step_def)
    show ?thesis
    proof (cases "map_of (settled c) p")
      case None
      with AwaitCapture assms show ?thesis by (simp add: resume_def)
    next
      case (Some out)
      with w have e: "pending c = []" by (rule waits_settled_empty)
      show ?thesis
      proof (cases out)
        case (Rejected err)
        with Some AwaitCapture assms e show ?thesis
          by (simp add: resume_def in_step_finish)
      next
        case (Fulfilled result)
        have fin: "in_step (c\<lparr>ws_closed := True, stage := s\<rparr>)"
          if "s = Threw x \<or> s = Returned y" for s x y
          using in_step_finish(2)[OF assms e that] .
        have thr: "in_step ((closeWithError missing_data c)\<lparr>stage := Threw missing_data\<rparr>)"
          using in_step_finish(3)[OF assms e, of "Threw missing_data" missing_data] by simp
        from Fulfilled Some AwaitCapture thr fin show ?thesis
          by (auto simp: resume_def split: option.splits sum.splits)
      qed
    qed
  next
    case (Returned x)
    with assms show ?thesis by (simp add: resume_def)
  next
    case (Threw x)
    with assms show ?thesis by (simp add: resume_def)
  qed
qed

lemma in_step_start: "in_step start"
  by (simp add: in_step_def start_def settled_below_def)

lemma in_step_turn: "in_step c \<Longrightarrow> in_step (take_turn nd os t c)"
  by (cases t) (simp_all add: in_step_resume in_step_fire del: fire.simps)

lemma in_step_run: "in_step c \<Longrightarrow> in_step (run nd os c ts)"
  by (induction ts arbitrary: c) (simp_all add: in_step_turn del: take_turn.simps)

lemma in_step_le1: "in_step c \<Longrightarrow> length (pending c) \<le> 1"
  using pending_shape[of c] by auto

lemma resume_sends_on_empty:
  assumes "in_step c" and "sent (resume nd os c) \<noteq> sent c"
  shows "pending c = []"
proof (rule ccontr)
  assume ne: "pending c \<noteq> []"
  with pending_shape[OF assms(1)] obtain i where
    un: "map_of (settled c) (SendPromise i) = None"
    and st: "stage c = AwaitEnable (SendPromise i) \<or> stage c = AwaitMetrics (SendPromise i)
                \<or> stage c = AwaitCapture (SendPromise i)"
    by blast
  from st un have "resume nd os c = c" by (auto simp: resume_def)
  with assms(2) show False by simp
qed

text \<open>A rejected command: the function, when it resumes, throws the error.\<close>

lemma resume_rejected:
  assumes "stage c = AwaitEnable p \<or> stage c = AwaitMetrics p \<or> stage c = AwaitCapture p"
    and "map_of (settled c) p = Some (Rejected e)"
  shows "resume nd os c = c\<lparr>stage := Threw e\<rparr>"
  using assms by (auto simp: resume_def)

lemmas client_defs = captureScreenshotPng_def in_ticks_def step_def settle_def resume_def
  await_send_def send_def start_def onMessage_def onClose_def closeWithError_def reply_def
  get_prop_def opt_prop_def obj_get_def map_delete_def frame_outcome_def captureParams_def


section \<open>The protocol client: what holds\<close>

lemma close_throws:
  assumes "in_step c" and "pending c \<noteq> []"
  shows "stage (step nd os Close c) = Threw (Error (JStr ''CDP socket closed''))"
proof -
  from pending_shape[OF assms(1)] assms(2) obtain i where
    one: "pending c = [(i, SendPromise i)]"
    and un: "map_of (settled c) (SendPromise i) = None"
    and st: "stage c = AwaitEnable (SendPromise i) \<or> stage c = AwaitMetrics (SendPromise i)
                \<or> stage c = AwaitCapture (SendPromise i)"
    by blast
  let ?c' = "fire Close c"
  from one un have m: "map_of (settled ?c') (SendPromise i)
      = Some (Rejected (Error (JStr ''CDP socket closed'')))"
    by (simp add: onClose_def closeWithError_fields map_of_snoc del: map_of_append)
  have s: "stage ?c' = stage c" by (rule fire_keeps)
  from st s m show ?thesis
    by (auto simp: step_def resume_def)
qed

text \<open>
  Claim C3: whatever commands are pending on a connection when it closes, the \<open>close\<close>
  handler rejects every one of them with the error \<open>CDP socket closed\<close> and leaves the
  map of pending commands empty (and the socket closed); a call of
  \<open>captureScreenshotPng\<close> that waits for a pending command then throws that error.
\<close>

theorem close_rejects_all_pending:
  "pending (onClose c) = []
   \<and> settled (onClose c)
       = settled c @ map (\<lambda>(i, p). (p, Rejected (Error (JStr ''CDP socket closed'')))) (pending c)
   \<and> length (settled (onClose c)) = length (settled c) + length (pending c)
   \<and> (\<forall>i p. (i, p) \<in> set (pending c) \<longrightarrow>
         (p, Rejected (Error (JStr ''CDP socket closed''))) \<in> set (settled (onClose c)))
   \<and> ws_closed (onClose c)
   \<and> (in_step c \<and> pending c \<noteq> [] \<longrightarrow>
         stage (step nd os Close c) = Threw (Error (JStr ''CDP socket closed'')))"
proof (intro conjI allI impI)
  show "pending (onClose c) = []" by (simp add: onClose_def closeWithError_fields)
  show "settled (onClose c)
       = settled c @ map (\<lambda>(i, p). (p, Rejected (Error (JStr ''CDP socket closed'')))) (pending c)"
    by (simp add: onClose_def closeWithError_fields)
  show "length (settled (onClose c)) = length (settled c) + length (pending c)"
    by (simp add: onClose_def closeWithError_fields)
  show "ws_closed (onClose c)" by (simp add: onClose_def closeWithError_fields)
next
  fix i p
  assume "(i, p) \<in> set (pending c)"
  then show "(p, Rejected (Error (JStr ''CDP socket closed''))) \<in> set (settled (onClose c))"
    by (force simp: onClose_def closeWithError_fields)
next
  assume "in_step c \<and> pending c \<noteq> []"
  then show "stage (step nd os Close c) = Threw (Error (JStr ''CDP socket closed''))"
    by (simp add: close_throws)
qed

lemma two_pending:
  "pending (conn_run start [DoSend ''Page.enable'' None, DoSend ''Page.getLayoutMetrics'' None])
     = [(1, SendPromise 1), (2, SendPromise 2)]"
  "settled (conn_run start [DoSend ''Page.enable'' None, DoSend ''Page.getLayoutMetrics'' None])
     = []"
  by (simp_all add: client_defs)

lemma one_pending_run:
  "pending (captureScreenshotPng example_node opts_viewport (in_ticks [[Open]]))
     = [(1, SendPromise 1)]"
  by (simp add: client_defs)

theorem close_rejects_all_pending_witness:
  "pending (conn_run start [DoSend ''Page.enable'' None, DoSend ''Page.getLayoutMetrics'' None])
     = [(1, SendPromise 1), (2, SendPromise 2)]
   \<and> pending (onClose (conn_run start
         [DoSend ''Page.enable'' None, DoSend ''Page.getLayoutMetrics'' None])) = []
   \<and> settled (onClose (conn_run start
         [DoSend ''Page.enable'' None, DoSend ''Page.getLayoutMetrics'' None]))
       = [(SendPromise 1, Rejected (Error (JStr ''CDP socket closed''))),
          (SendPromise 2, Rejected (Error (JStr ''CDP socket closed'')))]
   \<and> in_step (captureScreenshotPng example_node opts_viewport (in_ticks [[Open]]))
   \<and> pending (captureScreenshotPng example_node opts_viewport (in_ticks [[Open]])) \<noteq> []
   \<and> stage (step example_node opts_viewport Close
        (captureScreenshotPng example_node opts_viewport (in_ticks [[Open]])))
       = Threw (Error (JStr ''CDP socket closed''))"
proof -
  let ?c = "conn_run start [DoSend ''Page.enable'' None, DoSend ''Page.getLayoutMetrics'' None]"
  let ?d = "captureScreenshotPng example_node opts_viewport (in_ticks [[Open]])"
  note t = close_rejects_all_pending [of ?c example_node opts_viewport]
  from t have a: "pending (onClose ?c) = []" by blast
  from t two_pending have b: "settled (onClose ?c)
       = [(SendPromise 1, Rejected (Error (JStr ''CDP socket closed''))),
          (SendPromise 2, Rejected (Error (JStr ''CDP socket closed'')))]"
    by simp
  have i: "in_step ?d"
    unfolding captureScreenshotPng_def by (rule in_step_run, rule in_step_start)
  from one_pending_run have ne: "pending ?d \<noteq> []" by simp
  note u = close_rejects_all_pending [of ?d example_node opts_viewport]
  from u i ne have c: "stage (step example_node opts_viewport Close ?d)
       = Threw (Error (JStr ''CDP socket closed''))"
    by blast
  from two_pending(1) a b i ne c show ?thesis by blast
qed


lemma ids_strict:
  "sorted_wrt (<) (map real [a ..< b])" "distinct (map real [a ..< b])"
  by (simp_all add: sorted_wrt_map distinct_map inj_on_def)

lemma map_of_map_set:
  "map_of (map_set m i p) k = (if k = i then Some p else map_of m k)"
  by (induction m) auto

lemma map_of_map_delete:
  "map_of (map_delete m i) k = (if k = i then None else map_of m k)"
  by (induction m) (auto simp: map_delete_def)

text \<open>
  Claim C4: on one connection, however sends, inbound frames and the close are
  interleaved, the ids given to the commands are \<open>1, 2, 3, ...\<close> in the order of sending,
  hence strictly increasing and never used twice (so too in every call of
  \<open>captureScreenshotPng\<close>, under every schedule), and \<open>send\<close> registers the command
  under its id. An inbound frame with a numeric id settles the pending command stored
  under exactly that id, and no other, and removes that entry only; a frame with no
  numeric id, or with an id under which nothing is pending, changes nothing. Ids are
  counted as reals (JavaScript counts exactly below \<open>2^53\<close>).
\<close>

theorem ids_increase_and_frames_route_by_id:
  "map msg_id (sent (conn_run start xs))
       = map real [1 ..< Suc (length (sent (conn_run start xs)))]
   \<and> sorted_wrt (<) (map msg_id (sent (conn_run start xs)))
   \<and> distinct (map msg_id (sent (conn_run start xs)))
   \<and> map msg_id (sent (captureScreenshotPng nd os evs))
       = map real [1 ..< Suc (length (sent (captureScreenshotPng nd os evs)))]
   \<and> map_of (pending (snd (send method params c))) (nextId c) = Some (SendPromise (nextId c))
   \<and> (case frame_id data of
         None \<Rightarrow> onMessage data c = c
       | Some i \<Rightarrow>
          (case map_of (pending c) i of
             None \<Rightarrow> onMessage data c = c
           | Some p \<Rightarrow>
               pending (onMessage data c) = map_delete (pending c) i
               \<and> settled (onMessage data c) = settled c @ [(p, frame_outcome (the data))]
               \<and> map_of (pending (onMessage data c)) i = None
               \<and> (\<forall>k. k \<noteq> i \<longrightarrow>
                     map_of (pending (onMessage data c)) k = map_of (pending c) k)))"
proof (intro conjI)
  have a: "ids_in_order (conn_run start xs)"
    by (rule ids_conn_run, rule ids_start)
  then show ids: "map msg_id (sent (conn_run start xs))
       = map real [1 ..< Suc (length (sent (conn_run start xs)))]"
    by (simp add: ids_in_order_def)
  show "sorted_wrt (<) (map msg_id (sent (conn_run start xs)))"
    by (subst ids) (rule ids_strict)
  show "distinct (map msg_id (sent (conn_run start xs)))"
    by (subst ids) (rule ids_strict)
  have "ids_in_order (captureScreenshotPng nd os evs)"
    unfolding captureScreenshotPng_def by (rule ids_run, rule ids_start)
  then show "map msg_id (sent (captureScreenshotPng nd os evs))
       = map real [1 ..< Suc (length (sent (captureScreenshotPng nd os evs)))]"
    by (simp add: ids_in_order_def)
  show "map_of (pending (snd (send method params c))) (nextId c) = Some (SendPromise (nextId c))"
    by (simp add: send_fields map_of_map_set)
  show "case frame_id data of
         None \<Rightarrow> onMessage data c = c
       | Some i \<Rightarrow>
          (case map_of (pending c) i of
             None \<Rightarrow> onMessage data c = c
           | Some p \<Rightarrow>
               pending (onMessage data c) = map_delete (pending c) i
               \<and> settled (onMessage data c) = settled c @ [(p, frame_outcome (the data))]
               \<and> map_of (pending (onMessage data c)) i = None
               \<and> (\<forall>k. k \<noteq> i \<longrightarrow>
                     map_of (pending (onMessage data c)) k = map_of (pending c) k))"
    by (simp add: onMessage_eq map_of_map_delete split: option.splits)
qed

lemma two_sent:
  "conn_run start [DoSend ''Page.enable'' None, DoSend ''Page.getLayoutMetrics'' None]
     = \<lparr>nextId = 3, pending = [(1, SendPromise 1), (2, SendPromise 2)],
        sent = [\<lparr>msg_id = 1, msg_method = ''Page.enable'', msg_params = None\<rparr>,
                \<lparr>msg_id = 2, msg_method = ''Page.getLayoutMetrics'', msg_params = None\<rparr>],
        ws_closed = False, settled = [], stage = AwaitOpen\<rparr>"
  by (simp add: client_defs)

theorem ids_increase_and_frames_route_by_id_witness:
  "map msg_id (sent (conn_run start
       [DoSend ''Page.enable'' None, DoSend ''Page.getLayoutMetrics'' None])) = [1, 2]
   \<and> frame_id (Some (JObj [(''id'', JNum 1), (''result'', JObj [])])) = Some 1
   \<and> map_of (pending (conn_run start
         [DoSend ''Page.enable'' None, DoSend ''Page.getLayoutMetrics'' None])) 1
       = Some (SendPromise 1)
   \<and> pending (onMessage (Some (JObj [(''id'', JNum 1), (''result'', JObj [])]))
         (conn_run start [DoSend ''Page.enable'' None, DoSend ''Page.getLayoutMetrics'' None]))
       = [(2, SendPromise 2)]
   \<and> settled (onMessage (Some (JObj [(''id'', JNum 1), (''result'', JObj [])]))
         (conn_run start [DoSend ''Page.enable'' None, DoSend ''Page.getLayoutMetrics'' None]))
       = [(SendPromise 1, Fulfilled (Some (JObj [])))]
   \<and> (2::real) \<noteq> 1
   \<and> map_of (pending (onMessage (Some (JObj [(''id'', JNum 1), (''result'', JObj [])]))
         (conn_run start [DoSend ''Page.enable'' None, DoSend ''Page.getLayoutMetrics'' None]))) 2
       = Some (SendPromise 2)"
proof -
  let ?xs = "[DoSend ''Page.enable'' None, DoSend ''Page.getLayoutMetrics'' None]"
  let ?c = "conn_run start ?xs"
  let ?d = "Some (JObj [(''id'', JNum 1), (''result'', JObj [])])"
  note t = ids_increase_and_frames_route_by_id
    [of ?xs example_node opts_viewport "[]" "''x''" None ?c ?d]
  have fid: "frame_id ?d = Some 1" by (simp add: frame_id_def obj_get_def)
  have look: "map_of (pending ?c) 1 = Some (SendPromise 1)" by (simp add: two_sent del: conn_run.simps)
  from t have "map msg_id (sent ?c) = map real [1 ..< Suc (length (sent ?c))]" by blast
  then have ids: "map msg_id (sent ?c) = [1, 2]" by (simp add: two_sent del: conn_run.simps)
  note route = t [THEN conjunct2, THEN conjunct2, THEN conjunct2, THEN conjunct2, THEN conjunct2]
  have r: "pending (onMessage ?d ?c) = map_delete (pending ?c) 1
      \<and> settled (onMessage ?d ?c) = settled ?c @ [(SendPromise 1, frame_outcome (the ?d))]
      \<and> map_of (pending (onMessage ?d ?c)) 1 = None
      \<and> (\<forall>k. k \<noteq> 1 \<longrightarrow> map_of (pending (onMessage ?d ?c)) k = map_of (pending ?c) k)"
    using route unfolding fid look option.case .
  note r1 = r [THEN conjunct1]
  note r2 = r [THEN conjunct2, THEN conjunct1]
  note r4 = r [THEN conjunct2, THEN conjunct2, THEN conjunct2]
  have p: "pending (onMessage ?d ?c) = [(2, SendPromise 2)]"
    by (simp only: r1) (simp add: two_sent map_delete_def del: conn_run.simps)
  have s: "settled (onMessage ?d ?c) = [(SendPromise 1, Fulfilled (Some (JObj [])))]"
    by (simp only: r2) (simp add: two_sent frame_outcome_def get_prop_def opt_prop_def obj_get_def del: conn_run.simps)
  have "(2::real) \<noteq> 1" by simp
  with r4 have "map_of (pending (onMessage ?d ?c)) 2 = map_of (pending ?c) 2"
    by blast
  then have k: "map_of (pending (onMessage ?d ?c)) 2 = Some (SendPromise 2)"
    by (simp add: two_sent del: conn_run.simps)
  from ids fid look p s k show ?thesis by (simp del: conn_run.simps)
qed

lemma resume_one_more:
  "sent (resume nd os c) = sent c \<or> length (sent (resume nd os c)) = Suc (length (sent c))"
  using resume_shape[of nd os c] by (auto simp: await_send_fields)

text \<open>
  Two frames in one tick: the answer to \<open>Page.enable\<close> that comes together with the
  \<open>open\<close> event is dropped, as nothing is pending when its handler runs; the function
  then sends \<open>Page.enable\<close> and waits.
\<close>

lemma frame_in_the_tick_of_open:
  "captureScreenshotPng example_node opts_viewport (in_ticks [[Open, reply 1 (JObj [])]])
     = \<lparr>nextId = 2, pending = [(1, SendPromise 1)],
        sent = [\<lparr>msg_id = 1, msg_method = ''Page.enable'', msg_params = None\<rparr>],
        ws_closed = False, settled = [(OpenPromise, Fulfilled None)],
        stage = AwaitEnable (SendPromise 1)\<rparr>"
  by (simp add: client_defs frame_id_def)

text \<open>
  Claim C10: in every call of \<open>captureScreenshotPng\<close>, under every schedule of handlers
  and resumptions and so at every point of it, the map of pending commands holds at most
  one entry. A handler sends nothing; the function, when it resumes, sends at most one
  command, and only when nothing is pending (the command before it has been answered).
\<close>

theorem capture_one_pending_at_most:
  "length (pending (captureScreenshotPng nd os ts)) \<le> 1
   \<and> sent (fire ev (captureScreenshotPng nd os ts)) = sent (captureScreenshotPng nd os ts)
   \<and> (sent (resume nd os (captureScreenshotPng nd os ts))
          \<noteq> sent (captureScreenshotPng nd os ts)
        \<longrightarrow> pending (captureScreenshotPng nd os ts) = []
            \<and> length (sent (resume nd os (captureScreenshotPng nd os ts)))
                = Suc (length (sent (captureScreenshotPng nd os ts))))"
proof -
  let ?c = "captureScreenshotPng nd os ts"
  have i: "in_step ?c"
    unfolding captureScreenshotPng_def by (rule in_step_run, rule in_step_start)
  have sf: "sent (fire ev ?c) = sent ?c" by (rule fire_keeps)
  have "pending ?c = [] \<and> length (sent (resume nd os ?c)) = Suc (length (sent ?c))"
    if ne: "sent (resume nd os ?c) \<noteq> sent ?c"
  proof
    from i ne show "pending ?c = []" by (rule resume_sends_on_empty)
    from ne resume_one_more[of nd os ?c]
    show "length (sent (resume nd os ?c)) = Suc (length (sent ?c))" by blast
  qed
  with in_step_le1[OF i] sf show ?thesis by blast
qed

lemma enable_answered:
  "captureScreenshotPng example_node opts_full [Handle Open, Resume, Handle (reply 1 (JObj []))]
     = \<lparr>nextId = 2, pending = [],
        sent = [\<lparr>msg_id = 1, msg_method = ''Page.enable'', msg_params = None\<rparr>],
        ws_closed = False,
        settled = [(OpenPromise, Fulfilled None), (SendPromise 1, Fulfilled (Some (JObj [])))],
        stage = AwaitEnable (SendPromise 1)\<rparr>"
  by (simp add: client_defs)

lemma metrics_sent:
  "resume example_node opts_full
     \<lparr>nextId = 2, pending = [],
        sent = [\<lparr>msg_id = 1, msg_method = ''Page.enable'', msg_params = None\<rparr>],
        ws_closed = False,
        settled = [(OpenPromise, Fulfilled None), (SendPromise 1, Fulfilled (Some (JObj [])))],
        stage = AwaitEnable (SendPromise 1)\<rparr>
     = \<lparr>nextId = 3, pending = [(2, SendPromise 2)],
        sent = [\<lparr>msg_id = 1, msg_method = ''Page.enable'', msg_params = None\<rparr>,
                \<lparr>msg_id = 2, msg_method = ''Page.getLayoutMetrics'', msg_params = None\<rparr>],
        ws_closed = False,
        settled = [(OpenPromise, Fulfilled None), (SendPromise 1, Fulfilled (Some (JObj [])))],
        stage = AwaitMetrics (SendPromise 2)\<rparr>"
  by (simp add: client_defs opts_full_def)

theorem capture_one_pending_at_most_witness:
  "sent (resume example_node opts_full
      (captureScreenshotPng example_node opts_full
         [Handle Open, Resume, Handle (reply 1 (JObj []))]))
     \<noteq> sent (captureScreenshotPng example_node opts_full
         [Handle Open, Resume, Handle (reply 1 (JObj []))])
   \<and> pending (captureScreenshotPng example_node opts_full
         [Handle Open, Resume, Handle (reply 1 (JObj []))]) = []
   \<and> pending (resume example_node opts_full
      (captureScreenshotPng example_node opts_full
         [Handle Open, Resume, Handle (reply 1 (JObj []))])) = [(2, SendPromise 2)]
   \<and> length (sent (resume example_node opts_full
      (captureScreenshotPng example_node opts_full
         [Handle Open, Resume, Handle (reply 1 (JObj []))]))) = 2"
proof -
  let ?ts = "[Handle Open, Resume, Handle (reply 1 (JObj []))]"
  let ?c = "captureScreenshotPng example_node opts_full ?ts"
  have ne: "sent (resume example_node opts_full ?c) \<noteq> sent ?c"
    by (simp only: enable_answered metrics_sent) simp
  note t = capture_one_pending_at_most [of example_node opts_full ?ts Open]
  from t ne have e: "pending ?c = []"
    and l: "length (sent (resume example_node opts_full ?c)) = Suc (length (sent ?c))"
    by blast+
  from l have l2: "length (sent (resume example_node opts_full ?c)) = 2"
    by (simp only: enable_answered) simp
  have p2: "pending (resume example_node opts_full ?c) = [(2, SendPromise 2)]"
    by (simp only: enable_answered metrics_sent) simp
  from ne e p2 l2 show ?thesis by blast
qed










lemma prefix_cases3:
  "prefix ms [a, b, c] \<Longrightarrow> ms = [] \<or> ms = [a] \<or> ms = [a, b] \<or> ms = [a, b, c]"
  "prefix ms [a, c] \<Longrightarrow> ms = [] \<or> ms = [a] \<or> ms = [a, c]"
  by (simp_all add: in_set_prefixes[symmetric])

lemma script_methods:
  assumes "on_script os c"
  shows "(''Page.captureScreenshot'' \<in> set (map msg_method (sent c))
            \<longrightarrow> (''Page.getLayoutMetrics'' \<in> set (map msg_method (sent c)) \<longleftrightarrow> fullPage os))
       \<and> (\<not> fullPage os \<longrightarrow> ''Page.getLayoutMetrics'' \<notin> set (map msg_method (sent c)))"
proof -
  define ms where "ms = map msg_method (sent c)"
  from assms have p: "prefix ms (script os)"
    unfolding ms_def by (rule on_script_prefix)
  have "(''Page.captureScreenshot'' \<in> set ms
            \<longrightarrow> (''Page.getLayoutMetrics'' \<in> set ms \<longleftrightarrow> fullPage os))
       \<and> (\<not> fullPage os \<longrightarrow> ''Page.getLayoutMetrics'' \<notin> set ms)"
  proof (cases "fullPage os")
    case True
    with p have "prefix ms [''Page.enable'', ''Page.getLayoutMetrics'', ''Page.captureScreenshot'']"
      by (simp add: script_def)
    from prefix_cases3(1)[OF this] True show ?thesis by auto
  next
    case False
    with p have "prefix ms [''Page.enable'', ''Page.captureScreenshot'']"
      by (simp add: script_def)
    from prefix_cases3(2)[OF this] False show ?thesis by auto
  qed
  then show ?thesis unfolding ms_def .
qed

lemma clip_param:
  "get_prop (captureParams (clip_of nd metrics)) ''clip''
     = (if positive (dimension nd (content_size metrics) ''width'')
           \<and> positive (dimension nd (content_size metrics) ''height'')
        then Some (JObj [(''x'', JNum 0), (''y'', JNum 0),
                         (''width'', JNum (the (dimension nd (content_size metrics) ''width''))),
                         (''height'', JNum (the (dimension nd (content_size metrics) ''height''))),
                         (''scale'', JNum 1)])
        else None)"
  by (simp add: captureParams_def clip_of_def get_prop_def obj_get_def Let_def)

lemma resume_after_metrics:
  assumes "stage c = AwaitMetrics p" and "map_of (settled c) p = Some (Fulfilled metrics)"
  shows "resume nd os c = await_send ''Page.captureScreenshot''
           (Some (captureParams (clip_of nd metrics))) AwaitCapture c"
  using assms by (simp add: resume_def)

lemma resume_after_enable:
  assumes "stage c = AwaitEnable p" and "map_of (settled c) p = Some (Fulfilled r)"
  shows "resume nd os c =
     (if fullPage os then await_send ''Page.getLayoutMetrics'' None AwaitMetrics c
      else await_send ''Page.captureScreenshot'' (Some (captureParams None)) AwaitCapture c)"
  using assms by (simp add: resume_def)


lemmas metrics_defs = clip_of_def content_size_def dimension_def nullish_def Number_js_def
  positive_def

text \<open>
  Claim C6, as stated: in every call, when the dimensions of the layout metrics are not
  both positive the capture command carries no clip and the operation goes on without
  error. It does not when the answer to \<open>Page.getLayoutMetrics\<close> is an error: no
  dimension can be taken from it, yet the call throws the error of the answer and sends
  no capture command.
\<close>

theorem metrics_error_answer_counterexample:
  "fullPage opts_full
   \<and> stage (captureScreenshotPng example_node opts_full
        (in_ticks [[Open], [reply 1 (JObj [])],
          [Message (Some (JObj [(''id'', JNum 2),
             (''error'', JObj [(''message'', JStr ''Cannot find page'')])]))]]))
       = Threw (Error (JStr ''Cannot find page''))
   \<and> map msg_method (sent (captureScreenshotPng example_node opts_full
        (in_ticks [[Open], [reply 1 (JObj [])],
          [Message (Some (JObj [(''id'', JNum 2),
             (''error'', JObj [(''message'', JStr ''Cannot find page'')])]))]])))
       = [''Page.enable'', ''Page.getLayoutMetrics'']"
  by (simp add: client_defs opts_full_def)

text \<open>
  Claim C6, amended: in every call of \<open>captureScreenshotPng\<close>, under every schedule,
  \<open>Page.getLayoutMetrics\<close> is never sent without \<open>fullPage\<close>, and in a call that has sent
  the capture command it has been sent if and only if \<open>fullPage\<close> was asked for; it is
  the command the function sends when \<open>Page.enable\<close> is resolved and \<open>fullPage\<close> is set.
  When it is resolved, the size is \<open>cssContentSize\<close>, or \<open>contentSize\<close> when that is
  absent (or \<open>null\<close>); the capture command that follows carries
  \<open>clip = {x: 0, y: 0, width, height, scale: 1}\<close> exactly when both dimensions are
  positive, and otherwise carries no clip, the call going on to wait for the capture all
  the same. When it is rejected (an error answer, or the connection closed) the call
  throws that error and sends no capture command.
\<close>

theorem layout_metrics_iff_fullPage_clip_iff_positive:
  "(''Page.captureScreenshot'' \<in> set (map msg_method (sent (captureScreenshotPng nd os ts)))
      \<longrightarrow> (''Page.getLayoutMetrics'' \<in> set (map msg_method (sent (captureScreenshotPng nd os ts)))
            \<longleftrightarrow> fullPage os))
   \<and> (\<not> fullPage os
      \<longrightarrow> ''Page.getLayoutMetrics'' \<notin> set (map msg_method (sent (captureScreenshotPng nd os ts))))
   \<and> (stage c = AwaitEnable p \<and> map_of (settled c) p = Some (Fulfilled r)
      \<longrightarrow> sent (resume nd os c)
           = sent c @ [if fullPage os
                       then \<lparr>msg_id = nextId c, msg_method = ''Page.getLayoutMetrics'',
                              msg_params = None\<rparr>
                       else \<lparr>msg_id = nextId c, msg_method = ''Page.captureScreenshot'',
                              msg_params = Some (captureParams None)\<rparr>])
   \<and> (stage c = AwaitMetrics p \<and> map_of (settled c) p = Some (Fulfilled metrics)
      \<longrightarrow> sent (resume nd os c)
           = sent c @ [\<lparr>msg_id = nextId c, msg_method = ''Page.captureScreenshot'',
                        msg_params = Some (captureParams (clip_of nd metrics))\<rparr>]
          \<and> stage (resume nd os c) = AwaitCapture (SendPromise (nextId c)))
   \<and> (stage c = AwaitMetrics p \<and> map_of (settled c) p = Some (Rejected e)
      \<longrightarrow> stage (resume nd os c) = Threw e \<and> sent (resume nd os c) = sent c)
   \<and> get_prop (captureParams (clip_of nd metrics)) ''clip''
       = (if positive (dimension nd (content_size metrics) ''width'')
             \<and> positive (dimension nd (content_size metrics) ''height'')
          then Some (JObj [(''x'', JNum 0), (''y'', JNum 0),
                   (''width'', JNum (the (dimension nd (content_size metrics) ''width''))),
                   (''height'', JNum (the (dimension nd (content_size metrics) ''height''))),
                   (''scale'', JNum 1)])
          else None)
   \<and> get_prop (captureParams None) ''clip'' = None
   \<and> content_size metrics
       = (case opt_prop metrics ''cssContentSize'' of
            None \<Rightarrow> opt_prop metrics ''contentSize''
          | Some JNull \<Rightarrow> opt_prop metrics ''contentSize''
          | Some css \<Rightarrow> Some css)"
proof (intro conjI impI)
  have s: "on_script os (captureScreenshotPng nd os ts)"
    unfolding captureScreenshotPng_def by (rule on_script_run, rule on_script_start)
  note m = script_methods[OF s]
  from m show "''Page.getLayoutMetrics'' \<in> set (map msg_method (sent (captureScreenshotPng nd os ts)))
            \<longleftrightarrow> fullPage os"
    if "''Page.captureScreenshot'' \<in> set (map msg_method (sent (captureScreenshotPng nd os ts)))"
    using that by blast
  from m show "''Page.getLayoutMetrics'' \<notin> set (map msg_method (sent (captureScreenshotPng nd os ts)))"
    if "\<not> fullPage os"
    using that by blast
next
  assume "stage c = AwaitEnable p \<and> map_of (settled c) p = Some (Fulfilled r)"
  then show "sent (resume nd os c)
           = sent c @ [if fullPage os
                       then \<lparr>msg_id = nextId c, msg_method = ''Page.getLayoutMetrics'',
                              msg_params = None\<rparr>
                       else \<lparr>msg_id = nextId c, msg_method = ''Page.captureScreenshot'',
                              msg_params = Some (captureParams None)\<rparr>]"
    using resume_after_enable[of c p r nd os] by (simp add: await_send_fields)
next
  assume a: "stage c = AwaitMetrics p \<and> map_of (settled c) p = Some (Fulfilled metrics)"
  then show "sent (resume nd os c)
           = sent c @ [\<lparr>msg_id = nextId c, msg_method = ''Page.captureScreenshot'',
                        msg_params = Some (captureParams (clip_of nd metrics))\<rparr>]"
    using resume_after_metrics[of c p metrics nd os] by (simp add: await_send_fields)
  from a show "stage (resume nd os c) = AwaitCapture (SendPromise (nextId c))"
    using resume_after_metrics[of c p metrics nd os] by (simp add: await_send_fields)
next
  assume a: "stage c = AwaitMetrics p \<and> map_of (settled c) p = Some (Rejected e)"
  then show "stage (resume nd os c) = Threw e"
    using resume_rejected[of c p e nd os] by simp
  from a show "sent (resume nd os c) = sent c"
    using resume_rejected[of c p e nd os] by simp
next
  show "get_prop (captureParams (clip_of nd metrics)) ''clip''
       = (if positive (dimension nd (content_size metrics) ''width'')
             \<and> positive (dimension nd (content_size metrics) ''height'')
          then Some (JObj [(''x'', JNum 0), (''y'', JNum 0),
                   (''width'', JNum (the (dimension nd (content_size metrics) ''width''))),
                   (''height'', JNum (the (dimension nd (content_size metrics) ''height''))),
                   (''scale'', JNum 1)])
          else None)"
    by (rule clip_param)
  show "get_prop (captureParams None) ''clip'' = None"
    by (simp add: captureParams_def get_prop_def obj_get_def)
  show "content_size metrics
       = (case opt_prop metrics ''cssContentSize'' of
            None \<Rightarrow> opt_prop metrics ''contentSize''
          | Some JNull \<Rightarrow> opt_prop metrics ''contentSize''
          | Some css \<Rightarrow> Some css)"
    by (simp add: content_size_def nullish_def split: option.splits json.splits)
qed

lemma metrics_answered:
  "captureScreenshotPng example_node opts_full
     (in_ticks [[Open], [reply 1 (JObj [])]]
      @ [Handle (reply 2 (JObj [(''cssContentSize'',
                                 JObj [(''width'', JNum 800), (''height'', JNum 0)])]))])
   = \<lparr>nextId = 3, pending = [],
      sent = [\<lparr>msg_id = 1, msg_method = ''Page.enable'', msg_params = None\<rparr>,
              \<lparr>msg_id = 2, msg_method = ''Page.getLayoutMetrics'', msg_params = None\<rparr>],
      ws_closed = False,
      settled = [(OpenPromise, Fulfilled None), (SendPromise 1, Fulfilled (Some (JObj []))),
                 (SendPromise 2, Fulfilled (Some (JObj [(''cssContentSize'',
                     JObj [(''width'', JNum 800), (''height'', JNum 0)])])))],
      stage = AwaitMetrics (SendPromise 2)\<rparr>"
  by (simp add: client_defs opts_full_def)

lemma metrics_rejected:
  "captureScreenshotPng example_node opts_full
     (in_ticks [[Open], [reply 1 (JObj [])]] @ [Handle Close])
   = \<lparr>nextId = 3, pending = [],
      sent = [\<lparr>msg_id = 1, msg_method = ''Page.enable'', msg_params = None\<rparr>,
              \<lparr>msg_id = 2, msg_method = ''Page.getLayoutMetrics'', msg_params = None\<rparr>],
      ws_closed = True,
      settled = [(OpenPromise, Fulfilled None), (SendPromise 1, Fulfilled (Some (JObj []))),
                 (SendPromise 2, Rejected (Error (JStr ''CDP socket closed'')))],
      stage = AwaitMetrics (SendPromise 2)\<rparr>"
  by (simp add: client_defs opts_full_def)

lemma full_run_methods:
  "map msg_method (sent (captureScreenshotPng example_node opts_full
      (in_ticks [[Open], [reply 1 (JObj [])],
         [reply 2 (JObj [(''cssContentSize'',
                          JObj [(''width'', JNum 800), (''height'', JNum 0)])])]])))
   = [''Page.enable'', ''Page.getLayoutMetrics'', ''Page.captureScreenshot'']"
  by (simp add: client_defs opts_full_def)

lemma viewport_run:
  "stage (captureScreenshotPng example_node opts_viewport
      (in_ticks [[Open], [reply 1 (JObj [])], [reply 2 (JObj [(''data'', JStr ''aGVsbG8='')])]]))
   = Returned ''aGVsbG8=''"
  by (simp add: client_defs opts_viewport_def example_node_def)

lemma clip_800_0:
  "clip_of example_node
     (Some (JObj [(''cssContentSize'', JObj [(''width'', JNum 800), (''height'', JNum 0)])]))
   = None"
  by (simp add: metrics_defs opt_prop_def get_prop_def obj_get_def)

lemma dims_800_600:
  "dimension example_node (content_size
     (Some (JObj [(''contentSize'', JObj [(''width'', JNum 800), (''height'', JNum 600)])])))
     ''width'' = Some 800"
  "dimension example_node (content_size
     (Some (JObj [(''contentSize'', JObj [(''width'', JNum 800), (''height'', JNum 600)])])))
     ''height'' = Some 600"
  by (simp_all add: metrics_defs opt_prop_def get_prop_def obj_get_def)

theorem layout_metrics_iff_fullPage_clip_iff_positive_witness:
  "fullPage opts_full
   \<and> ''Page.captureScreenshot'' \<in> set (map msg_method (sent
        (captureScreenshotPng example_node opts_full
          (in_ticks [[Open], [reply 1 (JObj [])],
             [reply 2 (JObj [(''cssContentSize'',
                              JObj [(''width'', JNum 800), (''height'', JNum 0)])])]]))))
   \<and> ''Page.getLayoutMetrics'' \<in> set (map msg_method (sent
        (captureScreenshotPng example_node opts_full
          (in_ticks [[Open], [reply 1 (JObj [])],
             [reply 2 (JObj [(''cssContentSize'',
                              JObj [(''width'', JNum 800), (''height'', JNum 0)])])]]))))
   \<and> \<not> fullPage opts_viewport
   \<and> ''Page.getLayoutMetrics'' \<notin> set (map msg_method (sent
        (captureScreenshotPng example_node opts_viewport
          (in_ticks [[Open], [reply 1 (JObj [])],
             [reply 2 (JObj [(''data'', JStr ''aGVsbG8='')])]]))))
   \<and> stage (captureScreenshotPng example_node opts_viewport
          (in_ticks [[Open], [reply 1 (JObj [])],
             [reply 2 (JObj [(''data'', JStr ''aGVsbG8='')])]]))
       = Returned ''aGVsbG8=''
   \<and> sent (resume example_node opts_full
        (captureScreenshotPng example_node opts_full
          (in_ticks [[Open], [reply 1 (JObj [])]]
           @ [Handle (reply 2 (JObj [(''cssContentSize'',
                JObj [(''width'', JNum 800), (''height'', JNum 0)])]))])))
       = [\<lparr>msg_id = 1, msg_method = ''Page.enable'', msg_params = None\<rparr>,
          \<lparr>msg_id = 2, msg_method = ''Page.getLayoutMetrics'', msg_params = None\<rparr>,
          \<lparr>msg_id = 3, msg_method = ''Page.captureScreenshot'',
            msg_params = Some (JObj [(''format'', JStr ''png''), (''fromSurface'', JBool True),
                                     (''captureBeyondViewport'', JBool True)])\<rparr>]
   \<and> stage (resume example_node opts_full
        (captureScreenshotPng example_node opts_full
          (in_ticks [[Open], [reply 1 (JObj [])]] @ [Handle Close])))
       = Threw (Error (JStr ''CDP socket closed''))
   \<and> get_prop (captureParams (clip_of example_node
         (Some (JObj [(''contentSize'', JObj [(''width'', JNum 800), (''height'', JNum 600)])]))))
         ''clip''
       = Some (JObj [(''x'', JNum 0), (''y'', JNum 0), (''width'', JNum 800),
                     (''height'', JNum 600), (''scale'', JNum 1)])"
proof -
  let ?M = "JObj [(''cssContentSize'', JObj [(''width'', JNum 800), (''height'', JNum 0)])]"
  let ?N = "JObj [(''contentSize'', JObj [(''width'', JNum 800), (''height'', JNum 600)])]"
  let ?fts = "in_ticks [[Open], [reply 1 (JObj [])], [reply 2 ?M]]"
  let ?vts = "in_ticks [[Open], [reply 1 (JObj [])], [reply 2 (JObj [(''data'', JStr ''aGVsbG8='')])]]"
  let ?full = "captureScreenshotPng example_node opts_full ?fts"
  let ?view = "captureScreenshotPng example_node opts_viewport ?vts"
  let ?c = "captureScreenshotPng example_node opts_full
          (in_ticks [[Open], [reply 1 (JObj [])]] @ [Handle (reply 2 ?M)])"
  let ?r = "captureScreenshotPng example_node opts_full
          (in_ticks [[Open], [reply 1 (JObj [])]] @ [Handle Close])"
  have fp: "fullPage opts_full" by (simp add: opts_full_def)
  have nfp: "\<not> fullPage opts_viewport" by (simp add: opts_viewport_def)
  have cap: "''Page.captureScreenshot'' \<in> set (map msg_method (sent ?full))"
    by (simp only: full_run_methods) simp
  note t1 = layout_metrics_iff_fullPage_clip_iff_positive
    [of example_node opts_full ?fts ?c "SendPromise 2" "Some ?M" "Some ?N"
        "Error (JStr ''x'')"]
  from t1 cap fp have met: "''Page.getLayoutMetrics'' \<in> set (map msg_method (sent ?full))"
    by blast
  note t2 = layout_metrics_iff_fullPage_clip_iff_positive
    [of example_node opts_viewport ?vts ?c "SendPromise 2" "Some ?M" "Some ?N"
        "Error (JStr ''x'')"]
  from t2 nfp have nomet: "''Page.getLayoutMetrics'' \<notin> set (map msg_method (sent ?view))"
    by blast
  have h1: "stage ?c = AwaitMetrics (SendPromise 2)" by (simp only: metrics_answered) simp
  have h2: "map_of (settled ?c) (SendPromise 2) = Some (Fulfilled (Some ?M))"
    by (simp only: metrics_answered) simp
  note t3 = layout_metrics_iff_fullPage_clip_iff_positive
    [of example_node opts_full "[]" ?c "SendPromise 2" "Some ?M" "Some ?M"
        "Error (JStr ''x'')"]
  from t3 h1 h2
  have "sent (resume example_node opts_full ?c)
      = sent ?c @ [\<lparr>msg_id = nextId ?c, msg_method = ''Page.captureScreenshot'',
                    msg_params = Some (captureParams (clip_of example_node (Some ?M)))\<rparr>]"
    by blast
  then have snt: "sent (resume example_node opts_full ?c)
       = [\<lparr>msg_id = 1, msg_method = ''Page.enable'', msg_params = None\<rparr>,
          \<lparr>msg_id = 2, msg_method = ''Page.getLayoutMetrics'', msg_params = None\<rparr>,
          \<lparr>msg_id = 3, msg_method = ''Page.captureScreenshot'',
            msg_params = Some (JObj [(''format'', JStr ''png''), (''fromSurface'', JBool True),
                                     (''captureBeyondViewport'', JBool True)])\<rparr>]"
    by (simp only: metrics_answered clip_800_0) (simp add: captureParams_def)
  have g1: "stage ?r = AwaitMetrics (SendPromise 2)" by (simp only: metrics_rejected) simp
  have g2: "map_of (settled ?r) (SendPromise 2)
      = Some (Rejected (Error (JStr ''CDP socket closed'')))"
    by (simp only: metrics_rejected) simp
  note t4 = layout_metrics_iff_fullPage_clip_iff_positive
    [of example_node opts_full "[]" ?r "SendPromise 2" "Some ?M" "Some ?M"
        "Error (JStr ''CDP socket closed'')"]
  from t4 g1 g2 have rej: "stage (resume example_node opts_full ?r)
      = Threw (Error (JStr ''CDP socket closed''))"
    by blast
  from t1 have "get_prop (captureParams (clip_of example_node (Some ?N))) ''clip''
       = (if positive (dimension example_node (content_size (Some ?N)) ''width'')
             \<and> positive (dimension example_node (content_size (Some ?N)) ''height'')
          then Some (JObj [(''x'', JNum 0), (''y'', JNum 0),
                   (''width'', JNum (the (dimension example_node (content_size (Some ?N)) ''width''))),
                   (''height'', JNum (the (dimension example_node (content_size (Some ?N)) ''height''))),
                   (''scale'', JNum 1)])
          else None)"
    by blast
  then have clip: "get_prop (captureParams (clip_of example_node (Some ?N))) ''clip''
       = Some (JObj [(''x'', JNum 0), (''y'', JNum 0), (''width'', JNum 800),
                     (''height'', JNum 600), (''scale'', JNum 1)])"
    by (simp only: dims_800_600) (simp add: positive_def)
  from fp cap met nfp nomet viewport_run snt rej clip show ?thesis by blast
qed

end
